theory Spec2Isabelle
  imports Main "HOL-Library.Word" "HOL-Library.Sublist"
begin

unbundle bit_operations_syntax

section \<open>The File Operation Launcher (src/fileops.cpp)\<close>

text \<open>
  A \<open>std::string\<close> is a \<open>string\<close> (a list of bytes), a \<open>std::vector<std::string>\<close> a
  list of them. What a function writes to \<open>std::cout\<close> is returned as a string, in the
  order written; \<open>std::endl\<close> is the line feed.
\<close>

subsection \<open>Console output and usage text\<close>

definition endl :: string where
  "endl = [CHR 0x0A]"

definition printUsage :: string where
  "printUsage =
     endl @ ''usage: (action is one of: copy, move, delete)'' @ endl
     @ ''  FileOps.exe <action> --from <sourcePath> [sourcePath]* --to <directoryPath>'' @ endl
     @ ''  FileOps.exe <action> --from <sourcePath> [sourcePath]* --to <destPath> [destPath]*''
     @ endl"

subsection \<open>Input Validator\<close>

text \<open>
  \<open>inputIsValid\<close> returns what it printed and its boolean result. The checks are the
  source's, in the source's order; each failing check prints its message and the usage
  text and returns \<open>false\<close>.
\<close>

definition inputIsValid :: "string \<Rightarrow> string list \<Rightarrow> string list \<Rightarrow> string \<times> bool" where
  "inputIsValid action srcPaths destPaths =
    (if action = '''' then
       (''error: action is required'' @ endl @ printUsage, False)
     else if action \<noteq> ''copy'' \<and> action \<noteq> ''move'' \<and> action \<noteq> ''delete'' then
       (''error: action must be one of: copy, move, delete'' @ endl @ printUsage, False)
     else if length srcPaths = 0 then
       (''at least one source path is required'' @ endl @ printUsage, False)
     else if action = ''delete'' \<and> length destPaths > 0 then
       (''error: cannot specify destination path when action is delete'' @ endl
          @ printUsage, False)
     else if action \<noteq> ''delete'' \<and> length destPaths = 0 then
       (''error: at least one destination path is required when action is not delete''
          @ endl @ printUsage, False)
     else if length destPaths > length srcPaths then
       (''error: number of destination paths cannot be more than number of source paths''
          @ endl @ printUsage, False)
     else if length srcPaths > 1 \<and> length destPaths > 1
             \<and> length srcPaths \<noteq> length destPaths then
       (''error: number of source and destination paths must match ''
          @ ''when more than one destination path is specified'' @ endl @ printUsage, False)
     else ([], True))"

text \<open>
  The five rules of the specification (section 4.1), written from its words, to be
  compared with the source's validator.
\<close>

definition rule1 :: "string \<Rightarrow> bool" where
  "rule1 action \<longleftrightarrow> action \<noteq> [] \<and> action \<in> {''copy'', ''move'', ''delete''}"

definition rule2 :: "string list \<Rightarrow> bool" where
  "rule2 srcPaths \<longleftrightarrow> 1 \<le> length srcPaths"

definition rule3 :: "string \<Rightarrow> string list \<Rightarrow> bool" where
  "rule3 action destPaths \<longleftrightarrow>
     (if action = ''delete'' then destPaths = [] else 1 \<le> length destPaths)"

definition rule4 :: "string list \<Rightarrow> string list \<Rightarrow> bool" where
  "rule4 srcPaths destPaths \<longleftrightarrow> length destPaths \<le> length srcPaths"

definition rule5 :: "string list \<Rightarrow> string list \<Rightarrow> bool" where
  "rule5 srcPaths destPaths \<longleftrightarrow>
     (if 1 < length srcPaths \<and> 1 < length destPaths
      then length srcPaths = length destPaths else True)"

definition five_rules :: "string \<Rightarrow> string list \<Rightarrow> string list \<Rightarrow> bool" where
  "five_rules action srcPaths destPaths \<longleftrightarrow>
     rule1 action \<and> rule2 srcPaths \<and> rule3 action destPaths
     \<and> rule4 srcPaths destPaths \<and> rule5 srcPaths destPaths"

subsection \<open>Constants of the Windows SDK headers\<close>

text \<open>
  The source includes \<open>windows.h\<close> and \<open>shellapi.h\<close> and uses these constants by name.
  The headers are not part of the repository; the values are the ones the Windows SDK
  gives them (\<open>winerror.h\<close>, \<open>shellapi.h\<close>, \<open>winuser.h\<close>). \<open>int\<close>, \<open>DWORD\<close> and
  \<open>UINT\<close> are 32 bits wide, \<open>FILEOP_FLAGS\<close> is a 16-bit \<open>WORD\<close>, \<open>wchar_t\<close> is a 16-bit
  UTF-16 code unit.
\<close>

definition ERROR_CANCELLED :: "32 word" where
  "ERROR_CANCELLED = 1223"

definition FO_MOVE :: "32 word" where
  "FO_MOVE = 0x0001"

definition FO_COPY :: "32 word" where
  "FO_COPY = 0x0002"

definition FO_DELETE :: "32 word" where
  "FO_DELETE = 0x0003"

definition FOF_MULTIDESTFILES :: "16 word" where
  "FOF_MULTIDESTFILES = 0x0001"

definition FOF_ALLOWUNDO :: "16 word" where
  "FOF_ALLOWUNDO = 0x0040"

definition FOF_NOCONFIRMMKDIR :: "16 word" where
  "FOF_NOCONFIRMMKDIR = 0x0200"

definition FOF_WANTNUKEWARNING :: "16 word" where
  "FOF_WANTNUKEWARNING = 0x4000"

definition MB_ICONWARNING :: "32 word" where
  "MB_ICONWARNING = 0x00000030"

subsection \<open>Wide-character conversion\<close>

text \<open>
  \<open>MultiByteToWideChar(CP_UTF8, 0, ...)\<close> is a function of the operating system. It is
  modelled as the UTF-8 decoder to UTF-16: a well-formed sequence of one to four bytes
  gives the code units of its code point (a surrogate pair beyond the basic plane); a
  byte that starts no well-formed sequence gives the replacement character U+FFFD and
  decoding goes on at the next byte. Overlong forms and encoded surrogates are not
  well formed.
\<close>

definition is_cont :: "char \<Rightarrow> bool" where
  "is_cont c \<longleftrightarrow> (0x80::nat) \<le> of_char c \<and> of_char c \<le> (0xBF::nat)"

definition utf8_sequence :: "char \<Rightarrow> string \<Rightarrow> (nat \<times> nat) option" where
  "utf8_sequence c cs =
    (let b0 = (of_char c :: nat) in
     if 0xC2 \<le> b0 \<and> b0 \<le> 0xDF then
       (case cs of
          c1 # _ \<Rightarrow>
            if is_cont c1 then Some ((b0 - 0xC0) * 64 + (of_char c1 - 0x80), 1) else None
        | _ \<Rightarrow> None)
     else if 0xE0 \<le> b0 \<and> b0 \<le> 0xEF then
       (case cs of
          c1 # c2 # _ \<Rightarrow>
            if is_cont c1 \<and> is_cont c2
               \<and> (if b0 = 0xE0 then 0xA0 else 0x80) \<le> (of_char c1 :: nat)
               \<and> (of_char c1 :: nat) \<le> (if b0 = 0xED then 0x9F else 0xBF)
            then Some (((b0 - 0xE0) * 64 + (of_char c1 - 0x80)) * 64 + (of_char c2 - 0x80), 2)
            else None
        | _ \<Rightarrow> None)
     else if 0xF0 \<le> b0 \<and> b0 \<le> 0xF4 then
       (case cs of
          c1 # c2 # c3 # _ \<Rightarrow>
            if is_cont c1 \<and> is_cont c2 \<and> is_cont c3
               \<and> (if b0 = 0xF0 then 0x90 else 0x80) \<le> (of_char c1 :: nat)
               \<and> (of_char c1 :: nat) \<le> (if b0 = 0xF4 then 0x8F else 0xBF)
            then Some ((((b0 - 0xF0) * 64 + (of_char c1 - 0x80)) * 64
                        + (of_char c2 - 0x80)) * 64 + (of_char c3 - 0x80), 3)
            else None
        | _ \<Rightarrow> None)
     else None)"

definition utf16_units :: "nat \<Rightarrow> 16 word list" where
  "utf16_units cp =
    (if cp < 0x10000 then [of_nat cp]
     else [of_nat (0xD800 + (cp - 0x10000) div 0x400),
           of_nat (0xDC00 + (cp - 0x10000) mod 0x400)])"

fun utf8_to_utf16 :: "string \<Rightarrow> 16 word list" where
  "utf8_to_utf16 [] = []"
| "utf8_to_utf16 (c # cs) =
    (if (of_char c :: nat) < 0x80 then of_char c # utf8_to_utf16 cs
     else case utf8_sequence c cs of
            Some (cp, n) \<Rightarrow> utf16_units cp @ utf8_to_utf16 (drop n cs)
          | None \<Rightarrow> 0xFFFD # utf8_to_utf16 cs)"

text \<open>
  \<open>stringToLpwstr\<close> passes \<open>str.c_str()\<close> with length \<open>-1\<close>: the conversion reads up to
  the first null byte and stores the converted text followed by one null code unit. The
  result is the buffer of \<open>bufferLength\<close> code units.
\<close>

definition stringToLpwstr :: "string \<Rightarrow> 16 word list" where
  "stringToLpwstr str = utf8_to_utf16 (takeWhile (\<lambda>c. c \<noteq> CHR 0x00) str) @ [0]"

definition wcslen :: "16 word list \<Rightarrow> nat" where
  "wcslen buf = length (takeWhile (\<lambda>u. u \<noteq> 0) buf)"

subsection \<open>Error Code Table\<close>

text \<open>
  The table of \<open>getErrorAsString\<close>, in the order of the source's assignments, no key
  assigned twice. In the text of 0x402 the source has the two bytes of a no-break space
  between \<open>Windows\<close> and \<open>Vista\<close>.
\<close>

definition errors :: "(32 word \<times> string) list" where
  "errors =
    [(0x71, ''The source and destination files are the same file.''),
     (0x72, ''Multiple file paths were specified in the source buffer, ''
            @ ''but only one destination file path.''),
     (0x73, ''Rename operation was specified but the destination path is ''
            @ ''a different directory. Use the move operation instead.''),
     (0x74, ''The source is a root directory, which cannot be moved or renamed.''),
     (0x75, ''The operation was canceled by the user, or silently canceled if the ''
            @ ''appropriate flags were supplied to SHFileOperation.''),
     (0x76, ''The destination is a subtree of the source.''),
     (0x78, ''Security settings denied access to the source.''),
     (0x79, ''The source or destination path exceeded or would exceed MAX_PATH.''),
     (0x7A, ''The operation involved multiple destination paths, which ''
            @ ''can fail in the case of a move operation.''),
     (0x7C, ''The path in the source or destination or both was invalid.''),
     (0x7D, ''The source and destination have the same parent folder.''),
     (0x7E, ''The destination path is an existing file.''),
     (0x80, ''The destination path is an existing folder.''),
     (0x81, ''The name of the file exceeds MAX_PATH.''),
     (0x82, ''The destination is a read-only CD-ROM, possibly unformatted.''),
     (0x83, ''The destination is a read-only DVD, possibly unformatted.''),
     (0x84, ''The destination is a writable CD-ROM, possibly unformatted.''),
     (0x85, ''The file involved in the operation is too large for the ''
            @ ''destination media or file system.''),
     (0x86, ''The source is a read-only CD-ROM, possibly unformatted.''),
     (0x87, ''The source is a read-only DVD, possibly unformatted.''),
     (0x88, ''The source is a writable CD-ROM, possibly unformatted.''),
     (0xB7, ''MAX_PATH was exceeded during the operation.''),
     (0x402, ''An unknown error occurred. This is typically due to an ''
             @ ''invalid path in the source or destination. This error ''
             @ ''does not occur on Windows'' @ [CHR 0xC2, CHR 0xA0] @ ''Vista and later.''),
     (0x10000, ''An unspecified error occurred on the destination.''),
     (0x10074, ''Destination is a root directory and cannot be renamed.'')]"

text \<open>
  \<open>FormatMessageA\<close> is a function of the operating system, taken as a parameter: the
  text it stores for a code, whose length is its return value. When it fails it returns
  0 and stores nothing, and the message built from the buffer is the empty string.
\<close>

definition getErrorAsString :: "(32 word \<Rightarrow> string) \<Rightarrow> 32 word \<Rightarrow> string" where
  "getErrorAsString FormatMessageA errorCode =
    (case map_of errors errorCode of
       Some text \<Rightarrow> text
     | None \<Rightarrow> FormatMessageA errorCode)"

definition FormatMessageA_fails :: "32 word \<Rightarrow> string" where
  "FormatMessageA_fails errorCode = []"

subsection \<open>Result Reporter\<close>

text \<open>
  \<open>std::hex\<close> writes an \<open>int\<close> as the unsigned value of its 32 bits, in lower-case
  digits without leading zeros.
\<close>

fun hexDigit :: "nat \<Rightarrow> char" where
  "hexDigit n = ''0123456789abcdef'' ! (n mod 16)"

fun hex :: "nat \<Rightarrow> string" where
  "hex n = (if n < 16 then [hexDigit n] else hex (n div 16) @ [hexDigit (n mod 16)])"

declare hex.simps [simp del]

record MessageBox_call =
  lpText :: "16 word list"
  lpCaption :: "16 word list"
  uType :: "32 word"

record report =
  printed :: string
  dialogs :: "MessageBox_call list"

definition handleStatus ::
  "(32 word \<Rightarrow> string) \<Rightarrow> 32 word \<Rightarrow> bool \<Rightarrow> string \<Rightarrow> bool \<Rightarrow> report" where
  "handleStatus FormatMessageA opReturnCode wasAborted action showErrorDialog =
    (if wasAborted \<or> opReturnCode = ERROR_CANCELLED then
       \<lparr>printed = ''cancelled'' @ endl, dialogs = []\<rparr>
     else if opReturnCode = 0 then
       \<lparr>printed = ''ok'' @ endl, dialogs = []\<rparr>
     else
       (let errorHex = ''0x'' @ hex (unat opReturnCode);
            errorMessage = getErrorAsString FormatMessageA opReturnCode;
            caption = ''Unable to '' @ action @ '' files (ERR '' @ errorHex @ '')'';
            box = \<lparr>lpText = stringToLpwstr errorMessage,
                   lpCaption = stringToLpwstr caption, uType = MB_ICONWARNING\<rparr>
        in \<lparr>printed = ''error '' @ errorHex @ '': '' @ errorMessage @ endl,
            dialogs =
              (if showErrorDialog then
                 (if action = ''copy'' then [box]
                  else if action = ''move'' then [box]
                  else if action = ''delete'' then [box]
                  else [])
               else [])\<rparr>))"

subsection \<open>Path List Encoder\<close>

definition combinedStr :: "string list \<Rightarrow> string" where
  "combinedStr files = fold (\<lambda>file acc. acc @ file @ [CHR 0x09]) files []"

definition replace_tabs :: "nat \<Rightarrow> 16 word list \<Rightarrow> 16 word list" where
  "replace_tabs len combined =
     fold (\<lambda>i buf. if buf ! i = 0x09 then buf[i := 0] else buf) [0..<len] combined"

definition combileFileNames :: "string list \<Rightarrow> 16 word list" where
  "combileFileNames files =
    (let combined = stringToLpwstr (combinedStr files)
     in replace_tabs (wcslen combined) combined)"

text \<open>
  Reading an encoded buffer back, as the specification words it: the buffer is split
  on its null terminators, every null ending one entry, and the trailing empty entry,
  which the final terminator ends, is discarded.
\<close>

fun entries :: "16 word list \<Rightarrow> 16 word list \<Rightarrow> 16 word list list" where
  "entries cur [] = []"
| "entries cur (u # us) = (if u = 0 then cur # entries [] us else entries (cur @ [u]) us)"

definition split_on_null :: "16 word list \<Rightarrow> 16 word list list" where
  "split_on_null buf =
    (let es = entries [] buf in if es \<noteq> [] \<and> last es = [] then butlast es else es)"

subsection \<open>Operation Executor\<close>

text \<open>
  The parameter block holds the members the source assigns; \<open>wFunc\<close> stays unassigned
  (\<open>None\<close>) when the action is none of the three. \<open>SHFileOperationW\<close> is a function of
  the operating system, taken as a parameter: from the parameter block it gives the
  status it returns and the \<open>fAnyOperationsAborted\<close> member it stores.
\<close>

record SHFILEOPSTRUCTW =
  wFunc :: "32 word option"
  pFrom :: "16 word list"
  pTo :: "16 word list"
  fFlags :: "16 word"

record effects =
  console :: string
  message_boxes :: "MessageBox_call list"
  shell_calls :: "SHFILEOPSTRUCTW list"
  encoder_calls :: "string list list"

definition performFileOperation ::
  "(SHFILEOPSTRUCTW \<Rightarrow> 32 word \<times> bool) \<Rightarrow> (32 word \<Rightarrow> string)
     \<Rightarrow> string \<Rightarrow> string list \<Rightarrow> string list \<Rightarrow> bool \<Rightarrow> 32 word \<times> effects" where
  "performFileOperation SHFileOperationW FormatMessageA action srcPaths destPaths
       showErrorDialog =
    (let flags0 = FOF_ALLOWUNDO OR FOF_NOCONFIRMMKDIR OR FOF_WANTNUKEWARNING;
         flags = (if length destPaths > 1 then flags0 OR FOF_MULTIDESTFILES else flags0);
         op = \<lparr>wFunc = (if action = ''copy'' then Some FO_COPY
                        else if action = ''move'' then Some FO_MOVE
                        else if action = ''delete'' then Some FO_DELETE
                        else None),
               pFrom = combileFileNames srcPaths,
               pTo = combileFileNames destPaths,
               fFlags = flags\<rparr>;
         (status, aborted) = SHFileOperationW op;
         r = handleStatus FormatMessageA status aborted action showErrorDialog
     in (status,
         \<lparr>console = printed r, message_boxes = dialogs r, shell_calls = [op],
          encoder_calls = [srcPaths, destPaths]\<rparr>))"

subsection \<open>Command line\<close>

record parsed =
  p_showErrorDialog :: bool
  p_action :: string
  p_srcPaths :: "string list"
  p_destPaths :: "string list"
  p_currentlyProcessing :: string

definition parse_arg :: "parsed \<Rightarrow> string \<Rightarrow> parsed" where
  "parse_arg st arg =
    (if arg = ''--from'' then st\<lparr>p_currentlyProcessing := ''from''\<rparr>
     else if arg = ''--to'' then st\<lparr>p_currentlyProcessing := ''to''\<rparr>
     else if arg = ''--show-errors'' then st\<lparr>p_showErrorDialog := True\<rparr>
     else if take 2 arg = ''--'' then st
     else if p_currentlyProcessing st = ''action'' then st\<lparr>p_action := arg\<rparr>
     else if p_currentlyProcessing st = ''from'' then st\<lparr>p_srcPaths := p_srcPaths st @ [arg]\<rparr>
     else if p_currentlyProcessing st = ''to'' then st\<lparr>p_destPaths := p_destPaths st @ [arg]\<rparr>
     else st)"

definition parse_args :: "string list \<Rightarrow> parsed" where
  "parse_args argv =
     foldl parse_arg
       \<lparr>p_showErrorDialog = False, p_action = [], p_srcPaths = [], p_destPaths = [],
        p_currentlyProcessing = ''action''\<rparr>
       (drop 1 argv)"

definition main ::
  "(SHFILEOPSTRUCTW \<Rightarrow> 32 word \<times> bool) \<Rightarrow> (32 word \<Rightarrow> string)
     \<Rightarrow> string list \<Rightarrow> 32 word \<times> effects" where
  "main SHFileOperationW FormatMessageA argv =
    (let st = parse_args argv;
         (text, ok) = inputIsValid (p_action st) (p_srcPaths st) (p_destPaths st)
     in if \<not> ok then
          (1, \<lparr>console = text, message_boxes = [], shell_calls = [], encoder_calls = []\<rparr>)
        else performFileOperation SHFileOperationW FormatMessageA
               (p_action st) (p_srcPaths st) (p_destPaths st) (p_showErrorDialog st))"

text \<open>
  A test seam for the operating system's call: it returns the given status and the
  given aborted flag whatever the parameter block.
\<close>

definition SHFileOperationW_returns ::
  "32 word \<Rightarrow> bool \<Rightarrow> SHFILEOPSTRUCTW \<Rightarrow> 32 word \<times> bool" where
  "SHFileOperationW_returns status aborted op = (status, aborted)"

text \<open>A flag is present in a flag word when all its bits are.\<close>

definition flag_set :: "16 word \<Rightarrow> 16 word \<Rightarrow> bool" where
  "flag_set flag flags \<longleftrightarrow> flags AND flag = flag"

text \<open>The validator's verdict on the arguments \<open>main\<close> parses from a command line.\<close>

definition passes_validation :: "string list \<Rightarrow> bool" where
  "passes_validation argv \<longleftrightarrow>
     snd (inputIsValid (p_action (parse_args argv)) (p_srcPaths (parse_args argv))
            (p_destPaths (parse_args argv)))"

text \<open>The two paths of the specification's round-trip example.\<close>

definition example_a :: string where
  "example_a = ''C:'' @ [CHR 0x5C] @ ''a.txt''"

definition example_b :: string where
  "example_b = ''C:'' @ [CHR 0x5C] @ ''b.txt''"

subsection \<open>Reading the output back\<close>

text \<open>
  Notions of the specification's words, used to state what the launcher's output is.
  \<open>utf16_to_utf8\<close> reads wide text back as UTF-8 bytes (a surrogate pair is one code
  point); \<open>utf8_well_formed\<close> holds of the byte strings in which every byte belongs to a
  well-formed sequence, the ones the conversion does not replace. \<open>hex_value\<close> is the
  number a string of hexadecimal digits denotes. \<open>one_line\<close> holds of a text that is
  exactly one line: it ends with a line feed and holds no other.
\<close>

definition utf8_encode :: "nat \<Rightarrow> string" where
  "utf8_encode cp =
    (if cp < 0x80 then [char_of cp]
     else if cp < 0x800 then
       [char_of (0xC0 + cp div 0x40), char_of (0x80 + cp mod 0x40)]
     else if cp < 0x10000 then
       [char_of (0xE0 + cp div 0x1000), char_of (0x80 + cp div 0x40 mod 0x40),
        char_of (0x80 + cp mod 0x40)]
     else
       [char_of (0xF0 + cp div 0x40000), char_of (0x80 + cp div 0x1000 mod 0x40),
        char_of (0x80 + cp div 0x40 mod 0x40), char_of (0x80 + cp mod 0x40)])"

fun utf16_to_utf8 :: "16 word list \<Rightarrow> string" where
  "utf16_to_utf8 [] = []"
| "utf16_to_utf8 [u] = utf8_encode (unat u)"
| "utf16_to_utf8 (u # v # us) =
    (if 0xD800 \<le> unat u \<and> unat u < 0xDC00 \<and> 0xDC00 \<le> unat v \<and> unat v < 0xE000
     then utf8_encode (0x10000 + (unat u - 0xD800) * 0x400 + (unat v - 0xDC00))
            @ utf16_to_utf8 us
     else utf8_encode (unat u) @ utf16_to_utf8 (v # us))"

fun utf8_well_formed :: "string \<Rightarrow> bool" where
  "utf8_well_formed [] = True"
| "utf8_well_formed (c # cs) =
    (if (of_char c :: nat) < 0x80 then utf8_well_formed cs
     else case utf8_sequence c cs of
            Some (cp, n) \<Rightarrow> utf8_well_formed (drop n cs)
          | None \<Rightarrow> False)"

definition digit_value :: "char \<Rightarrow> nat" where
  "digit_value c =
    (let n = (of_char c :: nat) in
     if 0x30 \<le> n \<and> n \<le> 0x39 then n - 0x30
     else if 0x61 \<le> n \<and> n \<le> 0x66 then n - 0x61 + 10
     else 0)"

definition hex_value :: "string \<Rightarrow> nat" where
  "hex_value s = foldl (\<lambda>acc c. acc * 16 + digit_value c) 0 s"

definition one_line :: "string \<Rightarrow> bool" where
  "one_line s \<longleftrightarrow> s \<noteq> [] \<and> last s = CHR 0x0A \<and> CHR 0x0A \<notin> set (butlast s)"

text \<open>
  Two formatters of the operating system, for the code 5 only: the text an English
  system stores, which ends with carriage return and line feed as system messages do,
  and the text a French system stores in its ANSI code page, Windows-1252, where
  \<open>0xE8\<close> and \<open>0xE9\<close> are the letters e grave and e acute.
\<close>

definition FormatMessageA_en :: "32 word \<Rightarrow> string" where
  "FormatMessageA_en errorCode =
    (if errorCode = 5 then ''Access is denied.'' @ [CHR 0x0D, CHR 0x0A] else [])"


section \<open>The scripting wrapper's validator (src/main.ts)\<close>

text \<open>
  The action is a value of the union type \<open>'copy' | 'move' | 'delete'\<close>. A JavaScript
  string is a list of UTF-16 code units. An argument of type \<open>string | string[]\<close> is a
  string, an array of strings, or at run time \<open>null\<close> or \<open>undefined\<close>. \<open>trim\<close>
  removes the white space and line terminators of ECMAScript at both ends. A \<open>throw\<close>
  is the left injection, the returned pair of lists the right one. \<open>action_name\<close> is
  the token that \<open>copy\<close>, \<open>move\<close> and \<open>del\<close> put first on the launcher's command
  line.
\<close>

datatype ts_action = Copy | Move | Delete

type_synonym js_string = "16 word list"

datatype ts_paths = Nullish | Str js_string | Arr "js_string list"

datatype ts_error = Error string

definition js_whitespace :: "16 word \<Rightarrow> bool" where
  "js_whitespace u \<longleftrightarrow>
     u \<in> {0x0009, 0x000A, 0x000B, 0x000C, 0x000D, 0x0020, 0x00A0, 0x1680,
          0x2028, 0x2029, 0x202F, 0x205F, 0x3000, 0xFEFF}
     \<or> (0x2000 \<le> u \<and> u \<le> 0x200A)"

definition trim :: "js_string \<Rightarrow> js_string" where
  "trim s = rev (dropWhile js_whitespace (rev (dropWhile js_whitespace s)))"

definition concat_paths :: "ts_paths \<Rightarrow> js_string list" where
  "concat_paths p =
    (case p of
       Str s \<Rightarrow> if length s > 0 then [s] else []
     | Arr xs \<Rightarrow> if length xs > 0 then xs else []
     | Nullish \<Rightarrow> [])"

definition validateInput ::
  "ts_action \<Rightarrow> ts_paths \<Rightarrow> ts_paths \<Rightarrow> ts_error + (js_string list \<times> js_string list)" where
  "validateInput action src dest =
    (let src1 = (case src of Nullish \<Rightarrow> Str [] | _ \<Rightarrow> src);
         dest1 = (case dest of Nullish \<Rightarrow> Str [] | _ \<Rightarrow> dest);
         src2 = (case src1 of Str s \<Rightarrow> Str (trim s) | _ \<Rightarrow> src1);
         dest2 = (case dest1 of Str s \<Rightarrow> Str (trim s) | _ \<Rightarrow> dest1);
         srcPaths = concat_paths src2;
         destPaths = concat_paths dest2
     in if length srcPaths = 0 then
          Inl (Error ''at least one source path is required'')
        else if action \<noteq> Delete \<and> length destPaths = 0 then
          Inl (Error ''at least one destination path is required when copying or moving'')
        else if length destPaths > length srcPaths then
          Inl (Error ''number of destination paths cannot be more than number of source paths'')
        else if length srcPaths > 1 \<and> length destPaths > 1
                \<and> length srcPaths \<noteq> length destPaths then
          Inl (Error (''number of source and destination paths must match ''
                      @ ''when more than one destination path is specified''))
        else Inr (srcPaths, destPaths))"

fun action_name :: "ts_action \<Rightarrow> string" where
  "action_name Copy = ''copy''"
| "action_name Move = ''move''"
| "action_name Delete = ''delete''"

section \<open>Properties\<close>

subsection \<open>Input Validator\<close>

lemma inputIsValid_accepts_iff:
  "snd (inputIsValid action srcPaths destPaths) \<longleftrightarrow>
     (action = ''copy'' \<or> action = ''move'' \<or> action = ''delete'')
     \<and> srcPaths \<noteq> []
     \<and> (if action = ''delete'' then destPaths = [] else destPaths \<noteq> [])
     \<and> length destPaths \<le> length srcPaths
     \<and> (length srcPaths \<le> 1 \<or> length destPaths \<le> 1
          \<or> length srcPaths = length destPaths)"
  by (auto simp add: inputIsValid_def)

text \<open>
  C2. The validator accepts an action token and two path lists exactly when the five
  rules of the specification hold together. Three sources with two destinations are
  rejected whatever the action; three sources with one destination are accepted for
  copy and for move.
\<close>

theorem inputIsValid_five_rules:
  "(snd (inputIsValid action srcPaths destPaths) = five_rules action srcPaths destPaths)
   \<and> (length srcPaths = 3 \<and> length destPaths = 2
        \<longrightarrow> \<not> snd (inputIsValid action srcPaths destPaths))
   \<and> (length srcPaths = 3 \<and> length destPaths = 1 \<and> action \<in> {''copy'', ''move''}
        \<longrightarrow> snd (inputIsValid action srcPaths destPaths))"
proof (intro conjI impI)
  show "snd (inputIsValid action srcPaths destPaths) = five_rules action srcPaths destPaths"
    unfolding inputIsValid_accepts_iff five_rules_def rule1_def rule2_def rule3_def
      rule4_def rule5_def
    by (cases srcPaths; cases destPaths) auto
  show "\<not> snd (inputIsValid action srcPaths destPaths)"
    if "length srcPaths = 3 \<and> length destPaths = 2"
    using that unfolding inputIsValid_accepts_iff by auto
  show "snd (inputIsValid action srcPaths destPaths)"
    if "length srcPaths = 3 \<and> length destPaths = 1 \<and> action \<in> {''copy'', ''move''}"
    using that unfolding inputIsValid_accepts_iff by auto
qed

theorem inputIsValid_five_rules_witness:
  "\<not> snd (inputIsValid ''copy'' [''a'', ''b'', ''c''] [''x'', ''y''])
   \<and> snd (inputIsValid ''move'' [''a'', ''b'', ''c''] [''x''])
   \<and> five_rules ''move'' [''a'', ''b'', ''c''] [''x'']
   \<and> \<not> five_rules ''copy'' [''a'', ''b'', ''c''] [''x'', ''y'']"
  using inputIsValid_five_rules [of "''move''" "[''a'', ''b'', ''c'']" "[''x'']"]
    inputIsValid_five_rules [of "''copy''" "[''a'', ''b'', ''c'']" "[''x'', ''y'']"]
  by (simp add: five_rules_def rule1_def rule2_def rule3_def rule4_def rule5_def)

subsection \<open>Error Code Table\<close>

text \<open>
  C4 (as amended). The lookup maps the code 0x71 to exactly ``The source and
  destination files are the same file.'', and for every code absent from the fixed
  table it returns the system formatter's text unchanged, which is the empty string
  when the formatter stores nothing.
\<close>

theorem getErrorAsString_lookup:
  "getErrorAsString FormatMessageA 0x71
     = ''The source and destination files are the same file.''
   \<and> (map_of errors errorCode = None
        \<longrightarrow> getErrorAsString FormatMessageA errorCode = FormatMessageA errorCode)"
  by (simp add: getErrorAsString_def errors_def)

theorem getErrorAsString_lookup_witness:
  "map_of errors 0x12345 = None
   \<and> getErrorAsString FormatMessageA_fails 0x12345 = FormatMessageA_fails 0x12345"
  using getErrorAsString_lookup [of FormatMessageA_fails "0x12345"]
  by (simp add: errors_def)

text \<open>
  The code 0x12345 is absent from the table, and with a formatter that stores nothing
  for it the lookup returns the empty string.
\<close>

theorem getErrorAsString_empty_counterexample:
  "map_of errors 0x12345 = None \<and> getErrorAsString FormatMessageA_fails 0x12345 = []"
  by (simp add: getErrorAsString_def errors_def FormatMessageA_fails_def)

subsection \<open>Result Reporter\<close>

lemma getErrorAsString_0x71:
  "getErrorAsString FormatMessageA 0x71
     = ''The source and destination files are the same file.''"
  by (simp add: getErrorAsString_def errors_def)


subsection \<open>Operation Executor\<close>

text \<open>
  C7. For every request the executor makes one call of the operating system's file
  operation, whose parameter block has the allow-undo, no-confirm-on-directory-creation
  and warn-before-permanent-delete flags set, and has the multiple-destinations flag
  set exactly when more than one destination path is supplied. This holds for every
  action, so for delete too.
\<close>

theorem performFileOperation_flags:
  "\<exists>op. shell_calls (snd (performFileOperation SHFileOperationW FormatMessageA
                            action srcPaths destPaths showErrorDialog)) = [op]
     \<and> flag_set FOF_ALLOWUNDO (fFlags op)
     \<and> flag_set FOF_NOCONFIRMMKDIR (fFlags op)
     \<and> flag_set FOF_WANTNUKEWARNING (fFlags op)
     \<and> (flag_set FOF_MULTIDESTFILES (fFlags op) \<longleftrightarrow> 1 < length destPaths)"
  by (simp add: performFileOperation_def Let_def split_beta flag_set_def
      FOF_ALLOWUNDO_def FOF_NOCONFIRMMKDIR_def FOF_WANTNUKEWARNING_def FOF_MULTIDESTFILES_def)

subsection \<open>The process: validation, the operating system's call, the exit code\<close>

lemma inputIsValid_usage:
  "\<not> snd (inputIsValid action srcPaths destPaths)
     \<Longrightarrow> suffix printUsage (fst (inputIsValid action srcPaths destPaths))"
  unfolding inputIsValid_def
  by (auto simp add: suffix_def)

lemma main_rejected:
  "\<not> passes_validation argv \<Longrightarrow>
     main SHFileOperationW FormatMessageA argv =
       (1, \<lparr>console = fst (inputIsValid (p_action (parse_args argv))
                (p_srcPaths (parse_args argv)) (p_destPaths (parse_args argv))),
            message_boxes = [], shell_calls = [], encoder_calls = []\<rparr>)"
  by (simp add: main_def passes_validation_def Let_def split_beta)

lemma main_accepted:
  "passes_validation argv \<Longrightarrow>
     main SHFileOperationW FormatMessageA argv =
       performFileOperation SHFileOperationW FormatMessageA
         (p_action (parse_args argv)) (p_srcPaths (parse_args argv))
         (p_destPaths (parse_args argv)) (p_showErrorDialog (parse_args argv))"
  by (simp add: main_def passes_validation_def Let_def split_beta)

text \<open>
  Every action that reaches the executor, and so the reporter, is one of the three.
\<close>

lemma passes_validation_action:
  "passes_validation argv
     \<Longrightarrow> p_action (parse_args argv) \<in> {''copy'', ''move'', ''delete''}"
  unfolding passes_validation_def inputIsValid_accepts_iff by auto

lemma main_reports:
  "passes_validation argv \<Longrightarrow>
     \<exists>op. shell_calls (snd (main SHFileOperationW FormatMessageA argv)) = [op]
       \<and> message_boxes (snd (main SHFileOperationW FormatMessageA argv))
           = dialogs (handleStatus FormatMessageA (fst (SHFileOperationW op))
               (snd (SHFileOperationW op)) (p_action (parse_args argv))
               (p_showErrorDialog (parse_args argv)))
       \<and> console (snd (main SHFileOperationW FormatMessageA argv))
           = printed (handleStatus FormatMessageA (fst (SHFileOperationW op))
               (snd (SHFileOperationW op)) (p_action (parse_args argv))
               (p_showErrorDialog (parse_args argv)))"
  by (simp add: main_accepted performFileOperation_def Let_def split_beta)

lemma performFileOperation_call:
  "\<exists>op. shell_calls (snd (performFileOperation SHFileOperationW FormatMessageA
                            action srcPaths destPaths showErrorDialog)) = [op]
     \<and> fst (performFileOperation SHFileOperationW FormatMessageA
              action srcPaths destPaths showErrorDialog) = fst (SHFileOperationW op)"
  by (simp add: performFileOperation_def Let_def split_beta)

lemma performFileOperation_encoder_calls:
  "encoder_calls (snd (performFileOperation SHFileOperationW FormatMessageA
                         action srcPaths destPaths showErrorDialog))
     = [srcPaths, destPaths]"
  by (simp add: performFileOperation_def Let_def split_beta)

lemma parse_args_copy_no_source:
  "parse_args [''FileOps.exe'', ''copy'', ''--to'', ''x''] =
     \<lparr>p_showErrorDialog = False, p_action = ''copy'', p_srcPaths = [],
      p_destPaths = [''x''], p_currentlyProcessing = ''to''\<rparr>"
  by (simp add: parse_args_def parse_arg_def)

lemma parse_args_delete_one:
  "parse_args [''FileOps.exe'', ''delete'', ''--show-errors'', ''--from'', ''a''] =
     \<lparr>p_showErrorDialog = True, p_action = ''delete'', p_srcPaths = [''a''],
      p_destPaths = [], p_currentlyProcessing = ''from''\<rparr>"
  by (simp add: parse_args_def parse_arg_def)

lemma rejected_copy_no_source:
  "\<not> passes_validation [''FileOps.exe'', ''copy'', ''--to'', ''x'']"
  unfolding passes_validation_def parse_args_copy_no_source
  by (simp add: inputIsValid_def)

lemma accepted_delete_one:
  "passes_validation [''FileOps.exe'', ''delete'', ''--show-errors'', ''--from'', ''a'']"
  unfolding passes_validation_def parse_args_delete_one
  by (simp add: inputIsValid_def)

lemma combileFileNames_Nil: "combileFileNames [] = [0]"
  by (simp add: combileFileNames_def combinedStr_def stringToLpwstr_def wcslen_def
      replace_tabs_def)

text \<open>
  C6 (as amended). In every execution that reaches the executor the encoder is called
  twice, on the source list and on the destination list. The source list has at least
  one entry; the destination list is empty exactly when the action is delete, and the
  encoder then returns the buffer that holds a single null.
\<close>

theorem main_encoder_calls:
  "passes_validation argv \<Longrightarrow>
     encoder_calls (snd (main SHFileOperationW FormatMessageA argv))
       = [p_srcPaths (parse_args argv), p_destPaths (parse_args argv)]
     \<and> p_srcPaths (parse_args argv) \<noteq> []
     \<and> (p_destPaths (parse_args argv) = [] \<longleftrightarrow> p_action (parse_args argv) = ''delete'')
     \<and> combileFileNames [] = [0]"
proof -
  assume a: "passes_validation argv"
  from a have "p_srcPaths (parse_args argv) \<noteq> []
     \<and> (p_destPaths (parse_args argv) = [] \<longleftrightarrow> p_action (parse_args argv) = ''delete'')"
    unfolding passes_validation_def inputIsValid_accepts_iff by (auto split: if_splits)
  then show ?thesis
    unfolding main_accepted [OF a] performFileOperation_encoder_calls
    by (simp add: combileFileNames_Nil)
qed

theorem main_encoder_calls_witness:
  "encoder_calls (snd (main (SHFileOperationW_returns 0 False) FormatMessageA_fails
       [''FileOps.exe'', ''delete'', ''--show-errors'', ''--from'', ''a'']))
     = [[''a''], []]"
  using main_encoder_calls [OF accepted_delete_one,
      of "SHFileOperationW_returns 0 False" FormatMessageA_fails]
  by (simp add: parse_args_delete_one)

text \<open>
  A delete of one path passes validation and reaches the executor, which passes the
  empty destination list to the encoder.
\<close>

theorem encoder_empty_list_counterexample:
  "passes_validation [''FileOps.exe'', ''delete'', ''--show-errors'', ''--from'', ''a'']
   \<and> [] \<in> set (encoder_calls (snd (main (SHFileOperationW_returns 0 False)
         FormatMessageA_fails
         [''FileOps.exe'', ''delete'', ''--show-errors'', ''--from'', ''a''])))"
  using accepted_delete_one
  by (simp add: main_accepted [OF accepted_delete_one] performFileOperation_encoder_calls
      parse_args_delete_one)

subsection \<open>Path List Encoder\<close>

lemma combinedStr_concat: "combinedStr files = concat (map (\<lambda>f. f @ [CHR 0x09]) files)"
proof -
  have "fold (\<lambda>file acc. acc @ file @ [CHR 0x09]) files acc
          = acc @ concat (map (\<lambda>f. f @ [CHR 0x09]) files)" for acc
    by (induction files arbitrary: acc) simp_all
  then show ?thesis by (simp add: combinedStr_def)
qed

lemma replace_tabs_map:
  "n \<le> length buf \<Longrightarrow>
     replace_tabs n buf = map (\<lambda>u. if u = 0x09 then 0 else u) (take n buf) @ drop n buf"
proof (induction n)
  case 0
  then show ?case by (simp add: replace_tabs_def)
next
  case (Suc n)
  then have n: "n < length buf" by simp
  let ?g = "\<lambda>u::16 word. if u = 0x09 then 0 else u"
  have ih: "replace_tabs n buf = map ?g (take n buf) @ drop n buf"
    using Suc by simp
  have d: "drop n buf = buf ! n # drop (Suc n) buf"
    using n by (simp add: Cons_nth_drop_Suc)
  have "replace_tabs (Suc n) buf =
          (let b = replace_tabs n buf in if b ! n = 0x09 then b[n := 0] else b)"
    by (simp add: replace_tabs_def)
  also have "\<dots> = map ?g (take n buf) @ ?g (buf ! n) # drop (Suc n) buf"
    using n unfolding ih d by (simp add: nth_append list_update_append Let_def)
  also have "\<dots> = map ?g (take (Suc n) buf) @ drop (Suc n) buf"
    using n by (simp add: take_Suc_conv_app_nth)
  finally show ?case .
qed

lemma utf8_sequence_range:
  "utf8_sequence c cs = Some (cp, n) \<Longrightarrow> 0x80 \<le> cp \<and> cp < 0x110000 \<and> n \<le> length cs"
  unfolding utf8_sequence_def Let_def is_cont_def
  by (auto split: if_splits list.splits)

lemma utf8_sequence_append:
  "\<not> is_cont t \<Longrightarrow> utf8_sequence c (cs @ t # ys) = utf8_sequence c cs"
  unfolding utf8_sequence_def Let_def
  by (cases cs; cases "tl cs"; cases "tl (tl cs)") (auto split: list.splits)

lemma ascii_not_cont: "(of_char t :: nat) < 0x80 \<Longrightarrow> \<not> is_cont t"
  by (simp add: is_cont_def)

lemma utf8_to_utf16_append_ascii:
  "(of_char t :: nat) < 0x80 \<Longrightarrow>
     utf8_to_utf16 (xs @ t # ys) = utf8_to_utf16 xs @ of_char t # utf8_to_utf16 ys"
proof (induction xs rule: utf8_to_utf16.induct)
  case 1
  then show ?case by simp
next
  case (2 c cs)
  show ?case
  proof (cases "(of_char c :: nat) < 0x80")
    case True
    with 2 show ?thesis by simp
  next
    case False
    note s = utf8_sequence_append [OF ascii_not_cont [OF "2.prems"], of c cs ys]
    show ?thesis
    proof (cases "utf8_sequence c cs")
      case None
      with False 2 s show ?thesis by simp
    next
      case (Some a)
      obtain cp n where a: "a = (cp, n)" by (cases a)
      from Some a utf8_sequence_range have "n \<le> length cs" by blast
      with False Some a s "2.IH"(3) "2.prems"
      show ?thesis by simp
    qed
  qed
qed


lemma unat_of_char16: "unat (of_char c :: 16 word) = of_char c"
proof -
  have "(of_char c :: 16 word) = of_nat (of_char c)"
    by (simp add: of_nat_of_char)
  moreover have "(of_char c :: nat) < 65536"
    by (rule less_trans [OF nat_of_char_less_256]) simp
  ultimately show ?thesis
    by (simp add: unat_of_nat)
qed

lemma utf16_units_large:
  "0x80 \<le> cp \<Longrightarrow> cp < 0x110000 \<Longrightarrow> u \<in> set (utf16_units cp) \<Longrightarrow> 0x80 \<le> unat u"
proof -
  assume lo: "0x80 \<le> cp" and hi: "cp < 0x110000" and u: "u \<in> set (utf16_units cp)"
  have w: "unat (of_nat m :: 16 word) = m" if "m < 65536" for m
    using that by (simp add: unat_of_nat)
  show ?thesis
  proof (cases "cp < 0x10000")
    case True
    with u have "u = of_nat cp" by (simp add: utf16_units_def)
    with w [of cp] True lo show ?thesis by simp
  next
    case False
    let ?a = "0xD800 + (cp - 0x10000) div 0x400"
    let ?b = "0xDC00 + (cp - 0x10000) mod 0x400"
    from False hi have a: "?a < 65536" and b: "?b < 65536" by simp_all
    have "unat (of_nat ?a :: 16 word) = ?a" "unat (of_nat ?b :: 16 word) = ?b"
      using w [OF a] w [OF b] by blast+
    moreover from u False have "u = of_nat ?a \<or> u = of_nat ?b"
      unfolding utf16_units_def by (simp del: of_nat_add of_nat_numeral)
    ultimately show ?thesis by auto
  qed
qed

lemma utf8_to_utf16_small:
  "u \<in> set (utf8_to_utf16 xs) \<Longrightarrow> unat u < 0x80 \<Longrightarrow> \<exists>c\<in>set xs. u = of_char c"
proof (induction xs rule: utf8_to_utf16.induct)
  case 1
  then show ?case by simp
next
  case (2 c cs)
  show ?case
  proof (cases "(of_char c :: nat) < 0x80")
    case True
    with 2 show ?thesis by auto
  next
    case False
    show ?thesis
    proof (cases "utf8_sequence c cs")
      case None
      with False 2 show ?thesis by auto
    next
      case (Some a)
      obtain cp n where a: "a = (cp, n)" by (cases a)
      from Some a utf8_sequence_range have r: "0x80 \<le> cp" "cp < 0x110000" by blast+
      from "2.prems" False Some a
      have "u \<in> set (utf16_units cp) \<or> u \<in> set (utf8_to_utf16 (drop n cs))" by simp
      then show ?thesis
      proof
        assume "u \<in> set (utf16_units cp)"
        from utf16_units_large [OF r this] "2.prems"(2) show ?thesis by simp
      next
        assume "u \<in> set (utf8_to_utf16 (drop n cs))"
        from "2.IH"(3) [OF False Some a [symmetric] this "2.prems"(2)]
        obtain d where "d \<in> set (drop n cs)" "u = of_char d" by blast
        then show ?thesis using in_set_dropD by fastforce
      qed
    qed
  qed
qed


lemma of_char16_eq_0: "(of_char c :: 16 word) = 0 \<longleftrightarrow> c = CHR 0x00"
proof
  assume "(of_char c :: 16 word) = 0"
  then have "unat (of_char c :: 16 word) = 0" by simp
  then have "(of_char c :: nat) = of_char (CHR 0x00)" by (simp add: unat_of_char16)
  then show "c = CHR 0x00" by (simp only: of_char_eq_iff)
qed simp

lemma of_char16_eq_9: "(of_char c :: 16 word) = 0x09 \<longleftrightarrow> c = CHR 0x09"
proof
  assume "(of_char c :: 16 word) = 0x09"
  then have "unat (of_char c :: 16 word) = 9" by simp
  then have "(of_char c :: nat) = of_char (CHR 0x09)" by (simp add: unat_of_char16)
  then show "c = CHR 0x09" by (simp only: of_char_eq_iff)
qed simp

lemma utf8_to_utf16_no_null: "CHR 0x00 \<notin> set xs \<Longrightarrow> 0 \<notin> set (utf8_to_utf16 xs)"
proof
  assume n: "CHR 0x00 \<notin> set xs" and "0 \<in> set (utf8_to_utf16 xs)"
  from utf8_to_utf16_small [OF this(2)] obtain c where "c \<in> set xs" "(of_char c :: 16 word) = 0"
    by auto
  with n show False by (simp add: of_char16_eq_0)
qed

lemma utf8_to_utf16_no_tab: "CHR 0x09 \<notin> set xs \<Longrightarrow> 0x09 \<notin> set (utf8_to_utf16 xs)"
proof
  assume n: "CHR 0x09 \<notin> set xs" and "0x09 \<in> set (utf8_to_utf16 xs)"
  from utf8_to_utf16_small [OF this(2)] obtain c where "c \<in> set xs" "(of_char c :: 16 word) = 0x09"
    by auto
  with n show False by (simp add: of_char16_eq_9)
qed

lemma utf8_to_utf16_tab_separated:
  "utf8_to_utf16 (concat (map (\<lambda>f. f @ [CHR 0x09]) files))
     = concat (map (\<lambda>f. utf8_to_utf16 f @ [0x09]) files)"
proof (induction files)
  case Nil
  then show ?case by simp
next
  case (Cons f files)
  have "utf8_to_utf16 (f @ CHR 0x09 # concat (map (\<lambda>f. f @ [CHR 0x09]) files))
          = utf8_to_utf16 f @ of_char (CHR 0x09)
              # utf8_to_utf16 (concat (map (\<lambda>f. f @ [CHR 0x09]) files))"
    by (rule utf8_to_utf16_append_ascii) simp
  with Cons show ?case by simp
qed

lemma combileFileNames_layout:
  assumes "\<forall>f\<in>set files. CHR 0x09 \<notin> set f \<and> CHR 0x00 \<notin> set f"
  shows "combileFileNames files = concat (map (\<lambda>f. utf8_to_utf16 f @ [0]) files) @ [0]"
proof -
  let ?g = "\<lambda>u::16 word. if u = 0x09 then 0 else u"
  let ?W = "concat (map (\<lambda>f. utf8_to_utf16 f @ [0x09]) files)"
  have nonull: "CHR 0x00 \<notin> set (combinedStr files)"
    using assms by (auto simp add: combinedStr_concat)
  then have tw: "takeWhile (\<lambda>c. c \<noteq> CHR 0x00) (combinedStr files) = combinedStr files"
    by (auto simp add: takeWhile_eq_all_conv)
  have buf: "stringToLpwstr (combinedStr files) = ?W @ [0]"
    unfolding stringToLpwstr_def tw
    unfolding combinedStr_concat utf8_to_utf16_tab_separated
    by (rule refl)
  have "0 \<notin> set ?W"
    using assms by (auto dest: utf8_to_utf16_no_null)
  then have "takeWhile (\<lambda>u. u \<noteq> 0) (?W @ [0]) = ?W"
    by (subst takeWhile_append2) auto
  then have len: "wcslen (?W @ [0]) = length ?W"
    by (simp add: wcslen_def)
  have "map ?g ?W = concat (map (\<lambda>f. utf8_to_utf16 f @ [0]) files)"
    using assms
  proof (induction files)
    case Nil
    then show ?case by simp
  next
    case (Cons f files)
    then have "0x09 \<notin> set (utf8_to_utf16 f)"
      by (simp add: utf8_to_utf16_no_tab)
    then have "map ?g (utf8_to_utf16 f) = utf8_to_utf16 f"
      by (intro map_idI) auto
    with Cons show ?case by simp
  qed
  then show ?thesis
    unfolding combileFileNames_def Let_def buf len
    by (simp add: replace_tabs_map)
qed

lemma entries_terminated:
  "0 \<notin> set w \<Longrightarrow> entries cur (w @ 0 # rest) = (cur @ w) # entries [] rest"
  by (induction w arbitrary: cur) auto

lemma entries_concat:
  "\<forall>w\<in>set ws. 0 \<notin> set w \<Longrightarrow>
     entries [] (concat (map (\<lambda>w. w @ [0]) ws) @ rest) = ws @ entries [] rest"
proof (induction ws)
  case Nil
  then show ?case by simp
next
  case (Cons w ws)
  then have "entries [] (w @ 0 # (concat (map (\<lambda>w. w @ [0]) ws) @ rest))
               = w # entries [] (concat (map (\<lambda>w. w @ [0]) ws) @ rest)"
    using entries_terminated [of w "[]"] by simp
  with Cons show ?case by simp
qed

lemma split_on_null_layout:
  "\<forall>w\<in>set ws. 0 \<notin> set w \<Longrightarrow>
     split_on_null (concat (map (\<lambda>w. w @ [0]) ws) @ [0]) = ws"
  by (simp add: split_on_null_def entries_concat Let_def)

lemma round_trip:
  assumes "\<forall>f\<in>set files. CHR 0x09 \<notin> set f \<and> CHR 0x00 \<notin> set f"
  shows "split_on_null (combileFileNames files) = map utf8_to_utf16 files"
proof -
  have "\<forall>w\<in>set (map utf8_to_utf16 files). 0 \<notin> set w"
    using assms by (auto dest: utf8_to_utf16_no_null)
  from split_on_null_layout [OF this] show ?thesis
    by (simp add: combileFileNames_layout [OF assms] comp_def)
qed

lemma utf8_to_utf16_ascii:
  "\<forall>c\<in>set s. (of_char c :: nat) < 0x80 \<Longrightarrow> utf8_to_utf16 s = map of_char s"
  by (induction s) simp_all


lemma example_paths_plain:
  "\<forall>f\<in>set [example_a, example_b]. CHR 0x09 \<notin> set f \<and> CHR 0x00 \<notin> set f"
  by (simp add: example_a_def example_b_def)

lemma example_paths_wide:
  "utf8_to_utf16 example_a = map of_char example_a"
  "utf8_to_utf16 example_b = map of_char example_b"
  by (rule utf8_to_utf16_ascii, simp add: example_a_def example_b_def)+

text \<open>
  C5. Encoding the list of the two paths \<open>C:\a.txt\<close> and \<open>C:\b.txt\<close> gives the
  buffer of the two paths, each followed by a null, and a final null; splitting that
  buffer on its null terminators and discarding the trailing empty entry gives the
  two paths back, character for character.
\<close>

theorem combileFileNames_example_round_trip:
  "combileFileNames [example_a, example_b]
     = map of_char example_a @ [0] @ map of_char example_b @ [0, 0]
   \<and> split_on_null (combileFileNames [example_a, example_b])
     = [map of_char example_a, map of_char example_b]"
  using round_trip [OF example_paths_plain] combileFileNames_layout [OF example_paths_plain]
  by (simp add: example_paths_wide)

lemma tab_path_buffer:
  "combileFileNames [''a'' @ [CHR 0x09] @ ''b''] = [0x61, 0, 0x62, 0, 0]"
proof -
  have "stringToLpwstr (combinedStr [''a'' @ [CHR 0x09] @ ''b'']) = [0x61, 0x09, 0x62, 0x09, 0]"
    by (simp add: combinedStr_concat stringToLpwstr_def)
  moreover have "wcslen [0x61, 0x09, 0x62, 0x09, 0] = 4"
    by (simp add: wcslen_def)
  ultimately show ?thesis
    by (simp add: combileFileNames_def Let_def replace_tabs_map)
qed

subsection \<open>The two validators\<close>

lemma validateInput_arrays:
  "\<not> isl (validateInput action (Arr src) (Arr dest)) \<longleftrightarrow>
     src \<noteq> [] \<and> (action = Delete \<or> dest \<noteq> []) \<and> length dest \<le> length src
     \<and> (length src \<le> 1 \<or> length dest \<le> 1 \<or> length src = length dest)"
  by (auto simp add: validateInput_def concat_paths_def Let_def)

text \<open>
  C9 (as amended). For copy and move with any pair of path lists, and for delete with
  an empty destination list, the launcher's \<open>inputIsValid\<close> accepts exactly when the
  wrapper's \<open>validateInput\<close> returns without throwing, the two being given lists of the
  same lengths.
\<close>

theorem validators_agree:
  "action \<noteq> Delete \<or> dest = [] \<Longrightarrow>
   length srcPaths = length src \<Longrightarrow> length destPaths = length dest \<Longrightarrow>
   snd (inputIsValid (action_name action) srcPaths destPaths)
     \<longleftrightarrow> \<not> isl (validateInput action (Arr src) (Arr dest))"
  unfolding inputIsValid_accepts_iff validateInput_arrays
  by (cases action) auto

theorem validators_agree_witness:
  "snd (inputIsValid (action_name Copy) [''a'', ''b''] [''d''])
   \<and> \<not> isl (validateInput Copy (Arr [[0x61], [0x62]]) (Arr [[0x64]]))
   \<and> snd (inputIsValid (action_name Delete) [''a''] [])
   \<and> \<not> isl (validateInput Delete (Arr [[0x61]]) (Arr []))
   \<and> \<not> snd (inputIsValid (action_name Move) [''a'', ''b'', ''c''] [''d'', ''e''])
   \<and> isl (validateInput Move (Arr [[0x61], [0x62], [0x63]]) (Arr [[0x64], [0x65]]))"
  using validators_agree [of Copy "[[0x64]]" "[''a'', ''b'']" "[[0x61], [0x62]]" "[''d'']"]
    validators_agree [of Delete "[]" "[''a'']" "[[0x61]]" "[]"]
    validators_agree [of Move "[[0x64], [0x65]]" "[''a'', ''b'', ''c'']"
      "[[0x61], [0x62], [0x63]]" "[''d'', ''e'']"]
  by (simp add: inputIsValid_def)

text \<open>
  For delete with the source list of the path \<open>a\<close> and the destination list of the
  path \<open>b\<close>, the launcher's validator rejects and the wrapper's returns the two lists.
\<close>

theorem validators_delete_counterexample:
  "\<not> snd (inputIsValid (action_name Delete) [''a''] [''b''])
   \<and> validateInput Delete (Arr [[0x61]]) (Arr [[0x62]]) = Inr ([[0x61]], [[0x62]])"
  by (simp add: inputIsValid_def validateInput_def concat_paths_def)

subsection \<open>Wide text read back as UTF-8\<close>

lemma pack2:
  fixes a b :: nat
  assumes "b < 64"
  shows "(a * 64 + b) div 64 = a" "(a * 64 + b) mod 64 = b"
  using assms by simp_all

lemma pack3:
  fixes a b c :: nat
  assumes "b < 64" "c < 64"
  shows "((a * 64 + b) * 64 + c) div 4096 = a"
    "((a * 64 + b) * 64 + c) div 64 mod 64 = b"
    "((a * 64 + b) * 64 + c) mod 64 = c"
proof -
  have d: "((a * 64 + b) * 64 + c) div 64 = a * 64 + b"
    by (rule pack2(1) [OF assms(2)])
  have "((a * 64 + b) * 64 + c) div (64 * 64) = (a * 64 + b) div 64"
    unfolding div_mult2_eq d ..
  then show "((a * 64 + b) * 64 + c) div 4096 = a"
    using pack2(1) [OF assms(1), of a] by simp
  show "((a * 64 + b) * 64 + c) div 64 mod 64 = b"
    unfolding d by (rule pack2(2) [OF assms(1)])
  show "((a * 64 + b) * 64 + c) mod 64 = c"
    by (rule pack2(2) [OF assms(2)])
qed

lemma pack4:
  fixes a b c d :: nat
  assumes "b < 64" "c < 64" "d < 64"
  shows "(((a * 64 + b) * 64 + c) * 64 + d) div 262144 = a"
    "(((a * 64 + b) * 64 + c) * 64 + d) div 4096 mod 64 = b"
    "(((a * 64 + b) * 64 + c) * 64 + d) div 64 mod 64 = c"
    "(((a * 64 + b) * 64 + c) * 64 + d) mod 64 = d"
proof -
  let ?m = "(a * 64 + b) * 64 + c"
  have e: "(?m * 64 + d) div 64 = ?m"
    by (rule pack2(1) [OF assms(3)])
  have "(?m * 64 + d) div (64 * 4096) = ?m div 4096"
    unfolding div_mult2_eq e ..
  then show "(?m * 64 + d) div 262144 = a"
    using pack3(1) [OF assms(1,2)] by simp
  have "(?m * 64 + d) div (64 * 64) = ?m div 64"
    unfolding div_mult2_eq e ..
  then show "(?m * 64 + d) div 4096 mod 64 = b"
    using pack3(2) [OF assms(1,2)] by simp
  show "(?m * 64 + d) div 64 mod 64 = c"
    unfolding e by (rule pack2(2) [OF assms(2)])
  show "(?m * 64 + d) mod 64 = d"
    by (rule pack2(2) [OF assms(3)])
qed

lemma cont_offset:
  assumes "is_cont c"
  obtains b where "(of_char c :: nat) = 0x80 + b" "b < 64" "(of_char c :: nat) - 0x80 = b"
proof -
  from assms have "(0x80::nat) \<le> of_char c" "(of_char c :: nat) \<le> 0xBF"
    by (simp_all add: is_cont_def)
  then have "(of_char c :: nat) = 0x80 + (of_char c - 0x80)" "(of_char c :: nat) - 0x80 < 64"
    by simp_all
  then show ?thesis using that by blast
qed

lemma char_of_sum: "(of_char c :: nat) = k + a \<Longrightarrow> char_of (k + a) = c"
  by (metis char_of_char)

lemma utf8_sequence_encode:
  assumes "utf8_sequence c cs = Some (cp, n)"
  shows "utf8_encode cp = c # take n cs \<and> 0x80 \<le> cp \<and> cp < 0x110000
     \<and> \<not> (0xD800 \<le> cp \<and> cp < 0xE000)"
proof -
  define b0 where "b0 = (of_char c :: nat)"
  consider (two) "0xC2 \<le> b0" "b0 \<le> 0xDF"
    | (three) "0xE0 \<le> b0" "b0 \<le> 0xEF"
    | (four) "0xF0 \<le> b0" "b0 \<le> 0xF4"
    | (none) "\<not> (0xC2 \<le> b0 \<and> b0 \<le> 0xDF)" "\<not> (0xE0 \<le> b0 \<and> b0 \<le> 0xEF)"
        "\<not> (0xF0 \<le> b0 \<and> b0 \<le> 0xF4)"
    by linarith
  then show ?thesis
  proof cases
    case two
    with assms obtain c1 rest where cs: "cs = c1 # rest" and k: "is_cont c1"
      and cp: "cp = (b0 - 0xC0) * 64 + (of_char c1 - 0x80)" and n: "n = 1"
      unfolding utf8_sequence_def Let_def b0_def
      by (auto split: list.splits if_splits)
    from k obtain b where b: "(of_char c1 :: nat) = 0x80 + b" "b < 64" "(of_char c1 :: nat) - 0x80 = b"
      by (rule cont_offset)
    define a where "a = b0 - 0xC0"
    from two have a: "b0 = 0xC0 + a" "2 \<le> a" "a \<le> 31"
      by (simp_all add: a_def)
    have cpv: "cp = a * 64 + b"
      by (simp add: cp a_def b)
    have r: "0x80 \<le> cp" "cp < 0x800"
      using a b unfolding cpv by simp_all
    have dm: "cp div 0x40 = a" "cp mod 0x40 = b"
      using pack2 [OF b(2), of a] unfolding cpv by simp_all
    from a(1) have "(of_char c :: nat) = 0xC0 + a" by (simp add: b0_def)
    then have ca: "char_of (0xC0 + a) = c" by (rule char_of_sum)
    from b(1) have cb: "char_of (0x80 + b) = c1" by (rule char_of_sum)
    have "utf8_encode cp = [char_of (0xC0 + cp div 0x40), char_of (0x80 + cp mod 0x40)]"
      using r by (simp add: utf8_encode_def)
    also have "\<dots> = [c, c1]"
      unfolding dm ca cb ..
    finally show ?thesis
      using r by (simp add: cs n)
  next
    case three
    with assms obtain c1 c2 rest where cs: "cs = c1 # c2 # rest"
      and k: "is_cont c1" "is_cont c2"
      and lo: "(if b0 = 0xE0 then 0xA0 else 0x80) \<le> (of_char c1 :: nat)"
      and hi: "(of_char c1 :: nat) \<le> (if b0 = 0xED then 0x9F else 0xBF)"
      and cp: "cp = ((b0 - 0xE0) * 64 + (of_char c1 - 0x80)) * 64 + (of_char c2 - 0x80)"
      and n: "n = 2"
      unfolding utf8_sequence_def Let_def b0_def
      by (auto split: list.splits if_splits)
    from k(1) obtain b where b: "(of_char c1 :: nat) = 0x80 + b" "b < 64" "(of_char c1 :: nat) - 0x80 = b"
      by (rule cont_offset)
    from k(2) obtain d where d: "(of_char c2 :: nat) = 0x80 + d" "d < 64" "(of_char c2 :: nat) - 0x80 = d"
      by (rule cont_offset)
    define a where "a = b0 - 0xE0"
    from three have a: "b0 = 0xE0 + a" "a \<le> 15"
      by (simp_all add: a_def)
    have cpv: "cp = (a * 64 + b) * 64 + d"
      by (simp add: cp a_def b d)
    from lo a b have l: "a = 0 \<Longrightarrow> 32 \<le> b"
      by (simp split: if_splits)
    from hi a b have h: "a = 13 \<Longrightarrow> b \<le> 31"
      by (simp split: if_splits)
    have r1: "0x800 \<le> cp"
    proof (cases "a = 0")
      case True
      with l show ?thesis unfolding cpv by simp
    next
      case False
      then have "1 \<le> a" by simp
      then have "1 * 64 * 64 \<le> a * 64 * 64" by (intro mult_le_mono1)
      then show ?thesis unfolding cpv by simp
    qed
    have r2: "cp < 0x10000"
      using a b d unfolding cpv by simp
    have r3: "\<not> (0xD800 \<le> cp \<and> cp < 0xE000)"
    proof (cases "a = 13")
      case True
      with h b d show ?thesis unfolding cpv by simp
    next
      case False
      then consider "a \<le> 12" | "14 \<le> a" by linarith
      then show ?thesis
      proof cases
        case 1
        with b d show ?thesis unfolding cpv by simp
      next
        case 2
        then have "14 * 64 * 64 \<le> a * 64 * 64" by (intro mult_le_mono1)
        then show ?thesis unfolding cpv by simp
      qed
    qed
    have dm: "cp div 0x1000 = a" "cp div 0x40 mod 0x40 = b" "cp mod 0x40 = d"
      using pack3 [OF b(2) d(2), of a] unfolding cpv by simp_all
    from a(1) have "(of_char c :: nat) = 0xE0 + a" by (simp add: b0_def)
    then have ca: "char_of (0xE0 + a) = c" by (rule char_of_sum)
    from b(1) have cb: "char_of (0x80 + b) = c1" by (rule char_of_sum)
    from d(1) have cd: "char_of (0x80 + d) = c2" by (rule char_of_sum)
    have "utf8_encode cp = [char_of (0xE0 + cp div 0x1000),
            char_of (0x80 + cp div 0x40 mod 0x40), char_of (0x80 + cp mod 0x40)]"
      using r1 r2 by (simp add: utf8_encode_def)
    also have "\<dots> = [c, c1, c2]"
      unfolding dm ca cb cd ..
    finally show ?thesis
      using r1 r2 r3 by (simp add: cs n)
  next
    case four
    with assms obtain c1 c2 c3 rest where cs: "cs = c1 # c2 # c3 # rest"
      and k: "is_cont c1" "is_cont c2" "is_cont c3"
      and lo: "(if b0 = 0xF0 then 0x90 else 0x80) \<le> (of_char c1 :: nat)"
      and hi: "(of_char c1 :: nat) \<le> (if b0 = 0xF4 then 0x8F else 0xBF)"
      and cp: "cp = (((b0 - 0xF0) * 64 + (of_char c1 - 0x80)) * 64
                      + (of_char c2 - 0x80)) * 64 + (of_char c3 - 0x80)"
      and n: "n = 3"
      unfolding utf8_sequence_def Let_def b0_def
      by (auto split: list.splits if_splits)
    from k(1) obtain b where b: "(of_char c1 :: nat) = 0x80 + b" "b < 64" "(of_char c1 :: nat) - 0x80 = b"
      by (rule cont_offset)
    from k(2) obtain d where d: "(of_char c2 :: nat) = 0x80 + d" "d < 64" "(of_char c2 :: nat) - 0x80 = d"
      by (rule cont_offset)
    from k(3) obtain e where e: "(of_char c3 :: nat) = 0x80 + e" "e < 64" "(of_char c3 :: nat) - 0x80 = e"
      by (rule cont_offset)
    define a where "a = b0 - 0xF0"
    from four have a: "b0 = 0xF0 + a" "a \<le> 4"
      by (simp_all add: a_def)
    have cpv: "cp = ((a * 64 + b) * 64 + d) * 64 + e"
      by (simp add: cp a_def b d e)
    from lo a b have l: "a = 0 \<Longrightarrow> 16 \<le> b"
      by (simp split: if_splits)
    from hi a b have h: "a = 4 \<Longrightarrow> b \<le> 15"
      by (simp split: if_splits)
    have r1: "0x10000 \<le> cp"
    proof (cases "a = 0")
      case True
      with l have "16 * 64 * 64 \<le> b * 64 * 64" by (intro mult_le_mono1) simp
      with True show ?thesis unfolding cpv by simp
    next
      case False
      then have "1 \<le> a" by simp
      then have "1 * 64 * 64 * 64 \<le> a * 64 * 64 * 64" by (intro mult_le_mono1)
      then show ?thesis unfolding cpv by simp
    qed
    have r2: "cp < 0x110000"
    proof (cases "a = 4")
      case True
      with h d e show ?thesis unfolding cpv by simp
    next
      case False
      with a have "a \<le> 3" by simp
      with b d e show ?thesis unfolding cpv by simp
    qed
    have dm: "cp div 0x40000 = a" "cp div 0x1000 mod 0x40 = b" "cp div 0x40 mod 0x40 = d"
      "cp mod 0x40 = e"
      using pack4 [OF b(2) d(2) e(2), of a] unfolding cpv by simp_all
    from a(1) have "(of_char c :: nat) = 0xF0 + a" by (simp add: b0_def)
    then have ca: "char_of (0xF0 + a) = c" by (rule char_of_sum)
    from b(1) have cb: "char_of (0x80 + b) = c1" by (rule char_of_sum)
    from d(1) have cd: "char_of (0x80 + d) = c2" by (rule char_of_sum)
    from e(1) have ce: "char_of (0x80 + e) = c3" by (rule char_of_sum)
    have "utf8_encode cp = [char_of (0xF0 + cp div 0x40000),
            char_of (0x80 + cp div 0x1000 mod 0x40), char_of (0x80 + cp div 0x40 mod 0x40),
            char_of (0x80 + cp mod 0x40)]"
      using r1 by (simp add: utf8_encode_def)
    also have "\<dots> = [c, c1, c2, c3]"
      unfolding dm ca cb cd ce ..
    finally show ?thesis
      using r1 r2 by (simp add: cs n)
  next
    case none
    with assms show ?thesis
      unfolding utf8_sequence_def Let_def b0_def by simp
  qed
qed


lemma unat_of_nat16: "m < 65536 \<Longrightarrow> unat (of_nat m :: 16 word) = m"
  by (simp add: unat_of_nat)

lemma utf16_to_utf8_single:
  "\<not> (0xD800 \<le> unat u \<and> unat u < 0xDC00)
     \<Longrightarrow> utf16_to_utf8 (u # rest) = utf8_encode (unat u) @ utf16_to_utf8 rest"
  by (cases rest) auto

lemma utf16_units_back:
  assumes "cp < 0x110000" "\<not> (0xD800 \<le> cp \<and> cp < 0xE000)"
  shows "utf16_to_utf8 (utf16_units cp @ rest) = utf8_encode cp @ utf16_to_utf8 rest"
proof (cases "cp < 0x10000")
  case True
  then have u: "unat (of_nat cp :: 16 word) = cp"
    by (simp add: unat_of_nat16)
  from assms(2) have "\<not> (0xD800 \<le> unat (of_nat cp :: 16 word)
      \<and> unat (of_nat cp :: 16 word) < 0xDC00)"
    unfolding u by linarith
  from utf16_to_utf8_single [OF this, of rest] True show ?thesis
    by (simp add: utf16_units_def u)
next
  case False
  define k where "k = cp - 0x10000"
  let ?hi = "0xD800 + k div 0x400"
  let ?lo = "0xDC00 + k mod 0x400"
  from False assms(1) have k: "k < 0x100000" "cp = 0x10000 + k"
    by (simp_all add: k_def)
  then have hb: "?hi < 65536" and lb: "?lo < 65536" by simp_all
  have h: "unat (of_nat ?hi :: 16 word) = ?hi"
    using hb by (rule unat_of_nat16)
  have l: "unat (of_nat ?lo :: 16 word) = ?lo"
    using lb by (rule unat_of_nat16)
  have units: "utf16_units cp = [of_nat ?hi, of_nat ?lo]"
    using False unfolding utf16_units_def k_def by (simp del: of_nat_add of_nat_numeral)
  have rng: "0xD800 \<le> ?hi" "?hi < 0xDC00" "0xDC00 \<le> ?lo" "?lo < 0xE000"
    using k(1) by simp_all
  have restore: "0x10000 + (?hi - 0xD800) * 0x400 + (?lo - 0xDC00) = cp"
    using k(2) by simp
  have "utf16_to_utf8 (of_nat ?hi # of_nat ?lo # rest)
          = utf8_encode (0x10000 + (?hi - 0xD800) * 0x400 + (?lo - 0xDC00))
              @ utf16_to_utf8 rest"
    using rng unfolding utf16_to_utf8.simps h l by simp
  then show ?thesis
    unfolding units restore by simp
qed

lemma utf16_to_utf8_ascii:
  assumes "(of_char c :: nat) < 0x80"
  shows "utf16_to_utf8 (of_char c # rest) = c # utf16_to_utf8 rest"
proof -
  have u: "unat (of_char c :: 16 word) = of_char c"
    by (rule unat_of_char16)
  with assms have "\<not> (0xD800 \<le> unat (of_char c :: 16 word)
      \<and> unat (of_char c :: 16 word) < 0xDC00)"
    by simp
  from utf16_to_utf8_single [OF this, of rest] assms show ?thesis
    by (simp add: u utf8_encode_def)
qed

lemma utf16_to_utf8_utf8_to_utf16:
  "utf8_well_formed s \<Longrightarrow> utf16_to_utf8 (utf8_to_utf16 s) = s"
proof (induction s rule: utf8_to_utf16.induct)
  case 1
  then show ?case by simp
next
  case (2 c cs)
  show ?case
  proof (cases "(of_char c :: nat) < 0x80")
    case True
    with 2 show ?thesis by (simp add: utf16_to_utf8_ascii)
  next
    case False
    show ?thesis
    proof (cases "utf8_sequence c cs")
      case None
      with False "2.prems" show ?thesis by simp
    next
      case (Some a)
      obtain cp n where a: "a = (cp, n)" by (cases a)
      from utf8_sequence_encode [OF Some [unfolded a]]
      have e: "utf8_encode cp = c # take n cs" and r: "cp < 0x110000"
        "\<not> (0xD800 \<le> cp \<and> cp < 0xE000)"
        by simp_all
      from "2.prems" False Some a have "utf8_well_formed (drop n cs)" by simp
      with "2.IH"(3) [OF False Some a [symmetric]]
      have "utf16_to_utf8 (utf8_to_utf16 (drop n cs)) = drop n cs" by simp
      with False Some a show ?thesis
        by (simp add: utf16_units_back [OF r] e)
    qed
  qed
qed

lemma utf8_well_formed_ascii:
  "\<forall>c\<in>set s. (of_char c :: nat) < 0x80 \<Longrightarrow> utf8_well_formed s"
  by (induction s) simp_all

lemma errors_texts_well_formed:
  "map_of errors errorCode = Some text
     \<Longrightarrow> utf8_well_formed text \<and> CHR 0x00 \<notin> set text \<and> CHR 0x0A \<notin> set text"
proof -
  have "\<forall>p\<in>set errors. utf8_well_formed (snd p) \<and> CHR 0x00 \<notin> set (snd p)
          \<and> CHR 0x0A \<notin> set (snd p)"
    unfolding errors_def
    by (simp add: utf8_sequence_def is_cont_def)
  moreover assume "map_of errors errorCode = Some text"
  then have "(errorCode, text) \<in> set errors"
    by (rule map_of_SomeD)
  ultimately show ?thesis by fastforce
qed

subsection \<open>Hexadecimal digits\<close>

lemma hexDigit_table:
  "\<forall>d\<in>set [0..<16]. digit_value (hexDigit d) = d
      \<and> hexDigit d \<in> set ''0123456789abcdef''
      \<and> (of_char (hexDigit d) :: nat) < 0x80
      \<and> hexDigit d \<noteq> CHR 0x00 \<and> hexDigit d \<noteq> CHR 0x0A
      \<and> (hexDigit d = CHR ''0'' \<longrightarrow> d = 0)"
  by code_simp

lemma hexDigit_props:
  assumes "d < 16"
  shows "digit_value (hexDigit d) = d" "hexDigit d \<in> set ''0123456789abcdef''"
    "(of_char (hexDigit d) :: nat) < 0x80" "hexDigit d \<noteq> CHR 0x00" "hexDigit d \<noteq> CHR 0x0A"
    "hexDigit d = CHR ''0'' \<Longrightarrow> d = 0"
proof -
  from assms have "d \<in> set [0..<16]" by simp
  with hexDigit_table have
    "digit_value (hexDigit d) = d
      \<and> hexDigit d \<in> set ''0123456789abcdef''
      \<and> (of_char (hexDigit d) :: nat) < 0x80
      \<and> hexDigit d \<noteq> CHR 0x00 \<and> hexDigit d \<noteq> CHR 0x0A
      \<and> (hexDigit d = CHR ''0'' \<longrightarrow> d = 0)"
    by (rule bspec)
  then show "digit_value (hexDigit d) = d" "hexDigit d \<in> set ''0123456789abcdef''"
    "(of_char (hexDigit d) :: nat) < 0x80" "hexDigit d \<noteq> CHR 0x00" "hexDigit d \<noteq> CHR 0x0A"
    "hexDigit d = CHR ''0'' \<Longrightarrow> d = 0"
    by blast+
qed

lemma hex_value_snoc: "hex_value (s @ [c]) = hex_value s * 16 + digit_value c"
  by (simp add: hex_value_def)

lemma hex_value_hex: "hex_value (hex n) = n"
proof (induction n rule: hex.induct)
  case (1 n)
  show ?case
  proof (cases "n < 16")
    case True
    then show ?thesis
      by (simp add: hex.simps [of n] hex_value_def hexDigit_props(1) del: hexDigit.simps)
  next
    case False
    have "n mod 16 < 16" by simp
    from hexDigit_props(1) [OF this] False 1 show ?thesis
      by (simp add: hex.simps [of n] hex_value_snoc del: hexDigit.simps)
  qed
qed

lemma hex_chars:
  "c \<in> set (hex n) \<Longrightarrow>
     c \<in> set ''0123456789abcdef'' \<and> (of_char c :: nat) < 0x80 \<and> c \<noteq> CHR 0x00 \<and> c \<noteq> CHR 0x0A"
proof (induction n rule: hex.induct)
  case (1 n)
  have m: "n mod 16 < 16" by simp
  show ?case
  proof (cases "n < 16")
    case True
    with "1.prems" have "c = hexDigit n"
      by (simp add: hex.simps [of n] del: hexDigit.simps)
    with hexDigit_props [OF True] show ?thesis by (simp del: hexDigit.simps)
  next
    case False
    with "1.prems" have "c \<in> set (hex (n div 16)) \<or> c = hexDigit (n mod 16)"
      by (auto simp add: hex.simps [of n] simp del: hexDigit.simps)
    then show ?thesis
    proof
      assume "c \<in> set (hex (n div 16))"
      then show ?thesis by (rule "1.IH" [OF False])
    next
      assume "c = hexDigit (n mod 16)"
      with hexDigit_props [OF m] show ?thesis by (simp del: hexDigit.simps)
    qed
  qed
qed

lemma hex_not_Nil: "hex n \<noteq> []"
  by (simp add: hex.simps [of n])

lemma hex_no_leading_zero: "0 < n \<Longrightarrow> hd (hex n) \<noteq> CHR ''0''"
proof (induction n rule: hex.induct)
  case (1 n)
  show ?case
  proof (cases "n < 16")
    case True
    with hexDigit_props(6) [OF True] "1.prems" show ?thesis
      by (auto simp add: hex.simps [of n] simp del: hexDigit.simps)
  next
    case False
    then have "0 < n div 16" by simp
    from "1.IH" [OF False this] False show ?thesis
      by (simp add: hex.simps [of n] hex_not_Nil del: hexDigit.simps)
  qed
qed

subsection \<open>Result Reporter: what is printed\<close>

lemma printed_by_cases:
  "printed (handleStatus FormatMessageA opReturnCode wasAborted action showErrorDialog) =
     (if wasAborted \<or> opReturnCode = 1223 then ''cancelled'' @ [CHR 0x0A]
      else if opReturnCode = 0 then ''ok'' @ [CHR 0x0A]
      else ''error 0x'' @ hex (unat opReturnCode) @ '': ''
             @ (case map_of errors opReturnCode of
                  Some text \<Rightarrow> text | None \<Rightarrow> FormatMessageA opReturnCode)
             @ [CHR 0x0A])"
  by (simp add: handleStatus_def Let_def ERROR_CANCELLED_def endl_def getErrorAsString_def)

lemma one_line_snoc: "one_line (s @ [CHR 0x0A]) \<longleftrightarrow> CHR 0x0A \<notin> set s"
  by (simp add: one_line_def)

lemma hex_no_line_feed: "CHR 0x0A \<notin> set (hex n)"
  using hex_chars [of "CHR 0x0A" n] by blast

lemma handleStatus_one_line:
  assumes "CHR 0x0A \<notin> set (case map_of errors opReturnCode of
                  Some text \<Rightarrow> text | None \<Rightarrow> FormatMessageA opReturnCode)"
  shows "one_line (printed (handleStatus FormatMessageA opReturnCode wasAborted action
            showErrorDialog))"
proof -
  let ?m = "case map_of errors opReturnCode of
              Some text \<Rightarrow> text | None \<Rightarrow> FormatMessageA opReturnCode"
  have "one_line ((''error 0x'' @ hex (unat opReturnCode) @ '': '' @ ?m) @ [CHR 0x0A])"
    unfolding one_line_snoc using assms hex_no_line_feed by simp
  moreover have "one_line (''cancelled'' @ [CHR 0x0A])" "one_line (''ok'' @ [CHR 0x0A])"
    unfolding one_line_snoc by simp_all
  ultimately show ?thesis
    unfolding printed_by_cases by simp
qed

lemma errors_text_one_line:
  "map_of errors errorCode \<noteq> None \<Longrightarrow>
     CHR 0x0A \<notin> set (case map_of errors errorCode of
                  Some text \<Rightarrow> text | None \<Rightarrow> FormatMessageA errorCode)"
  using errors_texts_well_formed [of errorCode] by (cases "map_of errors errorCode") simp_all

text \<open>
  C1 (as amended). The reporter prints ``cancelled'' when the aborted flag is set or the
  status is the cancellation sentinel 1223, also when the status is 0; otherwise it
  prints ``ok'' for status 0; otherwise it prints \<open>error 0x<hex>: <message>\<close> and a
  line end, where \<open><hex>\<close> is the status as an unsigned 32-bit number in lower-case
  hexadecimal digits without leading zeros and \<open><message>\<close> is the table's text for the
  status or else the formatter's. What it prints is exactly one line whenever the
  message holds no line feed, which is so for every status of the fixed table.
\<close>

theorem handleStatus_printed:
  "printed (handleStatus FormatMessageA opReturnCode wasAborted action showErrorDialog) =
     (if wasAborted \<or> opReturnCode = 1223 then ''cancelled'' @ [CHR 0x0A]
      else if opReturnCode = 0 then ''ok'' @ [CHR 0x0A]
      else ''error 0x'' @ hex (unat opReturnCode) @ '': ''
             @ (case map_of errors opReturnCode of
                  Some text \<Rightarrow> text | None \<Rightarrow> FormatMessageA opReturnCode)
             @ [CHR 0x0A])
   \<and> hex_value (hex (unat opReturnCode)) = unat opReturnCode
   \<and> set (hex (unat opReturnCode)) \<subseteq> set ''0123456789abcdef''
   \<and> (opReturnCode \<noteq> 0 \<longrightarrow> hd (hex (unat opReturnCode)) \<noteq> CHR ''0'')
   \<and> (CHR 0x0A \<notin> set (case map_of errors opReturnCode of
                  Some text \<Rightarrow> text | None \<Rightarrow> FormatMessageA opReturnCode)
        \<longrightarrow> one_line (printed (handleStatus FormatMessageA opReturnCode wasAborted action
                showErrorDialog)))
   \<and> (map_of errors opReturnCode \<noteq> None
        \<longrightarrow> one_line (printed (handleStatus FormatMessageA opReturnCode wasAborted action
                showErrorDialog)))
   \<and> printed (handleStatus FormatMessageA 0x71 False action showErrorDialog)
       = ''error 0x71: The source and destination files are the same file.'' @ [CHR 0x0A]"
proof (intro conjI impI)
  show "printed (handleStatus FormatMessageA opReturnCode wasAborted action showErrorDialog) =
     (if wasAborted \<or> opReturnCode = 1223 then ''cancelled'' @ [CHR 0x0A]
      else if opReturnCode = 0 then ''ok'' @ [CHR 0x0A]
      else ''error 0x'' @ hex (unat opReturnCode) @ '': ''
             @ (case map_of errors opReturnCode of
                  Some text \<Rightarrow> text | None \<Rightarrow> FormatMessageA opReturnCode)
             @ [CHR 0x0A])"
    by (rule printed_by_cases)
  show "hex_value (hex (unat opReturnCode)) = unat opReturnCode"
    by (rule hex_value_hex)
  show "set (hex (unat opReturnCode)) \<subseteq> set ''0123456789abcdef''"
    using hex_chars by blast
  show "hd (hex (unat opReturnCode)) \<noteq> CHR ''0''" if "opReturnCode \<noteq> 0"
  proof -
    from that have "0 < unat opReturnCode" by (simp add: unat_gt_0)
    then show ?thesis by (rule hex_no_leading_zero)
  qed
  show "one_line (printed (handleStatus FormatMessageA opReturnCode wasAborted action
          showErrorDialog))"
    if "CHR 0x0A \<notin> set (case map_of errors opReturnCode of
                  Some text \<Rightarrow> text | None \<Rightarrow> FormatMessageA opReturnCode)"
    using that by (rule handleStatus_one_line)
  show "one_line (printed (handleStatus FormatMessageA opReturnCode wasAborted action
          showErrorDialog))"
    if "map_of errors opReturnCode \<noteq> None"
    using errors_text_one_line [OF that] by (rule handleStatus_one_line)
  show "printed (handleStatus FormatMessageA 0x71 False action showErrorDialog)
       = ''error 0x71: The source and destination files are the same file.'' @ [CHR 0x0A]"
    unfolding printed_by_cases
    by (simp add: hex.simps errors_def)
qed

lemma hex_samples:
  "hex (unat (0x12345 :: 32 word)) = ''12345''"
  "hex (unat (0xB7 :: 32 word)) = ''b7''"
  "hex (unat (5 :: 32 word)) = ''5''"
  by (simp_all add: hex.simps)

theorem handleStatus_printed_witness:
  "printed (handleStatus FormatMessageA_fails 0x12345 False ''copy'' False)
     = ''error 0x12345: '' @ [CHR 0x0A]
   \<and> one_line (printed (handleStatus FormatMessageA_fails 0x12345 False ''copy'' False))
   \<and> printed (handleStatus FormatMessageA_en 0xB7 False ''move'' True)
     = ''error 0xb7: MAX_PATH was exceeded during the operation.'' @ [CHR 0x0A]
   \<and> one_line (printed (handleStatus FormatMessageA_en 0xB7 False ''move'' True))
   \<and> printed (handleStatus FormatMessageA_en 1223 False ''move'' True)
     = ''cancelled'' @ [CHR 0x0A]
   \<and> printed (handleStatus FormatMessageA_en 0 False ''delete'' True) = ''ok'' @ [CHR 0x0A]"
proof -
  have a: "map_of errors (0x12345 :: 32 word) = None"
    "map_of errors (0xB7 :: 32 word) = Some ''MAX_PATH was exceeded during the operation.''"
    by (simp_all add: errors_def)
  note t1 = handleStatus_printed [of FormatMessageA_fails "0x12345" False "''copy''" False]
  note t2 = handleStatus_printed [of FormatMessageA_en "0xB7" False "''move''" True]
  note t3 = handleStatus_printed [of FormatMessageA_en "1223" False "''move''" True]
  note t4 = handleStatus_printed [of FormatMessageA_en "0" False "''delete''" True]
  have p1: "printed (handleStatus FormatMessageA_fails 0x12345 False ''copy'' False)
     = ''error 0x12345: '' @ [CHR 0x0A]"
    using t1 [THEN conjunct1] unfolding a hex_samples
    by (simp add: FormatMessageA_fails_def)
  have "CHR 0x0A \<notin> set (case map_of errors (0x12345 :: 32 word) of
          Some text \<Rightarrow> text | None \<Rightarrow> FormatMessageA_fails 0x12345)"
    unfolding a by (simp add: FormatMessageA_fails_def)
  with t1 have o1: "one_line (printed (handleStatus FormatMessageA_fails 0x12345 False
      ''copy'' False))"
    by blast
  have p2: "printed (handleStatus FormatMessageA_en 0xB7 False ''move'' True)
     = ''error 0xb7: MAX_PATH was exceeded during the operation.'' @ [CHR 0x0A]"
    using t2 [THEN conjunct1] unfolding a hex_samples by simp
  have "map_of errors (0xB7 :: 32 word) \<noteq> None"
    unfolding a by simp
  with t2 have o2: "one_line (printed (handleStatus FormatMessageA_en 0xB7 False ''move'' True))"
    by blast
  have p3: "printed (handleStatus FormatMessageA_en 1223 False ''move'' True)
     = ''cancelled'' @ [CHR 0x0A]"
    using t3 [THEN conjunct1] by simp
  have p4: "printed (handleStatus FormatMessageA_en 0 False ''delete'' True)
     = ''ok'' @ [CHR 0x0A]"
    using t4 [THEN conjunct1] by simp
  from p1 o1 p2 o2 p3 p4 show ?thesis by blast
qed

text \<open>
  With status 0 and the aborted flag set the reporter prints ``cancelled'', not ``ok''.
  With status 5 and the English formatter, whose text ends with carriage return and
  line feed, it prints two line ends, which is not exactly one line.
\<close>

theorem handleStatus_ok_counterexample:
  "printed (handleStatus FormatMessageA_fails 0 True ''copy'' False) = ''cancelled'' @ [CHR 0x0A]
   \<and> printed (handleStatus FormatMessageA_fails 0 True ''copy'' False) \<noteq> ''ok'' @ [CHR 0x0A]
   \<and> printed (handleStatus FormatMessageA_en 5 False ''copy'' False)
       = ''error 0x5: Access is denied.'' @ [CHR 0x0D, CHR 0x0A, CHR 0x0A]
   \<and> \<not> one_line (printed (handleStatus FormatMessageA_en 5 False ''copy'' False))"
proof -
  have "map_of errors (5 :: 32 word) = None"
    by (simp add: errors_def)
  then show ?thesis
    unfolding printed_by_cases hex_samples
    by (simp add: FormatMessageA_en_def one_line_def)
qed

subsection \<open>The process: usage text and exit code\<close>

lemma printUsage_text:
  "printUsage =
     [CHR 0x0A] @ ''usage: (action is one of: copy, move, delete)'' @ [CHR 0x0A]
     @ ''  FileOps.exe <action> --from <sourcePath> [sourcePath]* --to <directoryPath>''
     @ [CHR 0x0A]
     @ ''  FileOps.exe <action> --from <sourcePath> [sourcePath]* --to <destPath> [destPath]*''
     @ [CHR 0x0A]"
  by (simp add: printUsage_def endl_def)

lemma main_accepted_report:
  "passes_validation argv \<Longrightarrow>
     \<exists>op. shell_calls (snd (main SHFileOperationW FormatMessageA argv)) = [op]
       \<and> fst (main SHFileOperationW FormatMessageA argv) = fst (SHFileOperationW op)
       \<and> console (snd (main SHFileOperationW FormatMessageA argv))
           = printed (handleStatus FormatMessageA (fst (SHFileOperationW op))
               (snd (SHFileOperationW op)) (p_action (parse_args argv))
               (p_showErrorDialog (parse_args argv)))"
  by (simp add: main_accepted performFileOperation_def Let_def split_beta)

text \<open>
  C3 (as amended). When the parsed arguments fail validation, as they do when there is
  no source path, the process ends its output with the usage text, exits with code 1
  and makes no call of the operating system's file operation. When they pass, it makes
  exactly one such call and its exit code is the status that call returned: 0 when
  ``ok'' is reported, the error code when an error is reported, and when ``cancelled''
  is reported either the sentinel 1223 or whatever status came with the aborted flag.
\<close>

theorem main_exit_code:
  "(\<not> passes_validation argv \<longrightarrow>
       fst (main SHFileOperationW FormatMessageA argv) = 1
       \<and> shell_calls (snd (main SHFileOperationW FormatMessageA argv)) = []
       \<and> suffix
           ([CHR 0x0A] @ ''usage: (action is one of: copy, move, delete)'' @ [CHR 0x0A]
            @ ''  FileOps.exe <action> --from <sourcePath> [sourcePath]* --to <directoryPath>''
            @ [CHR 0x0A]
            @ ''  FileOps.exe <action> --from <sourcePath> [sourcePath]* --to <destPath> [destPath]*''
            @ [CHR 0x0A])
           (console (snd (main SHFileOperationW FormatMessageA argv))))
   \<and> (p_srcPaths (parse_args argv) = [] \<longrightarrow> \<not> passes_validation argv)
   \<and> (passes_validation argv \<longrightarrow>
       (\<exists>op. shell_calls (snd (main SHFileOperationW FormatMessageA argv)) = [op]
          \<and> fst (main SHFileOperationW FormatMessageA argv) = fst (SHFileOperationW op)
          \<and> console (snd (main SHFileOperationW FormatMessageA argv)) =
              (if snd (SHFileOperationW op) \<or> fst (SHFileOperationW op) = 1223
               then ''cancelled'' @ [CHR 0x0A]
               else if fst (SHFileOperationW op) = 0 then ''ok'' @ [CHR 0x0A]
               else ''error 0x'' @ hex (unat (fst (SHFileOperationW op))) @ '': ''
                      @ (case map_of errors (fst (SHFileOperationW op)) of
                           Some text \<Rightarrow> text
                         | None \<Rightarrow> FormatMessageA (fst (SHFileOperationW op)))
                      @ [CHR 0x0A])))"
proof (intro conjI impI)
  assume r: "\<not> passes_validation argv"
  show "fst (main SHFileOperationW FormatMessageA argv) = 1"
    "shell_calls (snd (main SHFileOperationW FormatMessageA argv)) = []"
    by (simp_all add: main_rejected [OF r])
  from r have "suffix printUsage (console (snd (main SHFileOperationW FormatMessageA argv)))"
    by (simp add: main_rejected [OF r] inputIsValid_usage passes_validation_def)
  then show "suffix
           ([CHR 0x0A] @ ''usage: (action is one of: copy, move, delete)'' @ [CHR 0x0A]
            @ ''  FileOps.exe <action> --from <sourcePath> [sourcePath]* --to <directoryPath>''
            @ [CHR 0x0A]
            @ ''  FileOps.exe <action> --from <sourcePath> [sourcePath]* --to <destPath> [destPath]*''
            @ [CHR 0x0A])
           (console (snd (main SHFileOperationW FormatMessageA argv)))"
    unfolding printUsage_text .
next
  assume "p_srcPaths (parse_args argv) = []"
  then show "\<not> passes_validation argv"
    unfolding passes_validation_def inputIsValid_accepts_iff by simp
next
  assume a: "passes_validation argv"
  from main_accepted_report [OF a, of SHFileOperationW FormatMessageA]
  show "\<exists>op. shell_calls (snd (main SHFileOperationW FormatMessageA argv)) = [op]
          \<and> fst (main SHFileOperationW FormatMessageA argv) = fst (SHFileOperationW op)
          \<and> console (snd (main SHFileOperationW FormatMessageA argv)) =
              (if snd (SHFileOperationW op) \<or> fst (SHFileOperationW op) = 1223
               then ''cancelled'' @ [CHR 0x0A]
               else if fst (SHFileOperationW op) = 0 then ''ok'' @ [CHR 0x0A]
               else ''error 0x'' @ hex (unat (fst (SHFileOperationW op))) @ '': ''
                      @ (case map_of errors (fst (SHFileOperationW op)) of
                           Some text \<Rightarrow> text
                         | None \<Rightarrow> FormatMessageA (fst (SHFileOperationW op)))
                      @ [CHR 0x0A])"
    unfolding printed_by_cases .
qed

lemma console_copy_no_source:
  "console (snd (main SHFileOperationW FormatMessageA
      [''FileOps.exe'', ''copy'', ''--to'', ''x'']))
   = ''at least one source path is required'' @ [CHR 0x0A, CHR 0x0A]
     @ ''usage: (action is one of: copy, move, delete)'' @ [CHR 0x0A]
     @ ''  FileOps.exe <action> --from <sourcePath> [sourcePath]* --to <directoryPath>''
     @ [CHR 0x0A]
     @ ''  FileOps.exe <action> --from <sourcePath> [sourcePath]* --to <destPath> [destPath]*''
     @ [CHR 0x0A]"
  unfolding main_rejected [OF rejected_copy_no_source] parse_args_copy_no_source
  by (simp add: inputIsValid_def printUsage_def endl_def)

theorem main_exit_code_witness:
  "\<not> passes_validation [''FileOps.exe'', ''copy'', ''--to'', ''x'']
   \<and> fst (main (SHFileOperationW_returns 5 False) FormatMessageA_en
            [''FileOps.exe'', ''copy'', ''--to'', ''x'']) = 1
   \<and> shell_calls (snd (main (SHFileOperationW_returns 5 False) FormatMessageA_en
            [''FileOps.exe'', ''copy'', ''--to'', ''x''])) = []
   \<and> console (snd (main (SHFileOperationW_returns 5 False) FormatMessageA_en
            [''FileOps.exe'', ''copy'', ''--to'', ''x'']))
       = ''at least one source path is required'' @ [CHR 0x0A, CHR 0x0A]
         @ ''usage: (action is one of: copy, move, delete)'' @ [CHR 0x0A]
         @ ''  FileOps.exe <action> --from <sourcePath> [sourcePath]* --to <directoryPath>''
         @ [CHR 0x0A]
         @ ''  FileOps.exe <action> --from <sourcePath> [sourcePath]* --to <destPath> [destPath]*''
         @ [CHR 0x0A]
   \<and> passes_validation [''FileOps.exe'', ''delete'', ''--show-errors'', ''--from'', ''a'']
   \<and> fst (main (SHFileOperationW_returns 5 False) FormatMessageA_en
            [''FileOps.exe'', ''delete'', ''--show-errors'', ''--from'', ''a'']) = 5
   \<and> console (snd (main (SHFileOperationW_returns 5 False) FormatMessageA_en
            [''FileOps.exe'', ''delete'', ''--show-errors'', ''--from'', ''a'']))
       = ''error 0x5: Access is denied.'' @ [CHR 0x0D, CHR 0x0A, CHR 0x0A]
   \<and> fst (main (SHFileOperationW_returns 1223 False) FormatMessageA_en
            [''FileOps.exe'', ''delete'', ''--show-errors'', ''--from'', ''a'']) = 1223
   \<and> console (snd (main (SHFileOperationW_returns 1223 False) FormatMessageA_en
            [''FileOps.exe'', ''delete'', ''--show-errors'', ''--from'', ''a'']))
       = ''cancelled'' @ [CHR 0x0A]"
proof -
  let ?bad = "[''FileOps.exe'', ''copy'', ''--to'', ''x'']"
  let ?del = "[''FileOps.exe'', ''delete'', ''--show-errors'', ''--from'', ''a'']"
  note t1 = main_exit_code [of ?bad "SHFileOperationW_returns 5 False" FormatMessageA_en]
  note t2 = main_exit_code [of ?del "SHFileOperationW_returns 5 False" FormatMessageA_en]
  note t3 = main_exit_code [of ?del "SHFileOperationW_returns 1223 False" FormatMessageA_en]
  have "p_srcPaths (parse_args ?bad) = []"
    by (simp add: parse_args_copy_no_source)
  with t1 have r: "\<not> passes_validation ?bad" by blast
  with t1 have r1: "fst (main (SHFileOperationW_returns 5 False) FormatMessageA_en ?bad) = 1"
    and r2: "shell_calls (snd (main (SHFileOperationW_returns 5 False) FormatMessageA_en ?bad))
               = []"
    by blast+
  have e: "map_of errors (5 :: 32 word) = None"
    by (simp add: errors_def)
  from t2 accepted_delete_one
  have a1: "fst (main (SHFileOperationW_returns 5 False) FormatMessageA_en ?del) = 5"
    and a2: "console (snd (main (SHFileOperationW_returns 5 False) FormatMessageA_en ?del))
       = ''error 0x5: Access is denied.'' @ [CHR 0x0D, CHR 0x0A, CHR 0x0A]"
    unfolding SHFileOperationW_returns_def fst_conv snd_conv e hex_samples
    by (auto simp add: FormatMessageA_en_def)
  from t3 accepted_delete_one
  have c1: "fst (main (SHFileOperationW_returns 1223 False) FormatMessageA_en ?del) = 1223"
    and c2: "console (snd (main (SHFileOperationW_returns 1223 False) FormatMessageA_en ?del))
       = ''cancelled'' @ [CHR 0x0A]"
    unfolding SHFileOperationW_returns_def fst_conv snd_conv
    by auto
  from r r1 r2 console_copy_no_source accepted_delete_one a1 a2 c1 c2
  show ?thesis by blast
qed

text \<open>
  A validated delete whose call returns status 0 with the aborted flag set reports
  ``cancelled'' and exits with code 0, not with the cancellation sentinel.
\<close>

theorem main_cancelled_exit_counterexample:
  "passes_validation [''FileOps.exe'', ''delete'', ''--show-errors'', ''--from'', ''a'']
   \<and> fst (main (SHFileOperationW_returns 0 True) FormatMessageA_fails
            [''FileOps.exe'', ''delete'', ''--show-errors'', ''--from'', ''a'']) = 0
   \<and> console (snd (main (SHFileOperationW_returns 0 True) FormatMessageA_fails
            [''FileOps.exe'', ''delete'', ''--show-errors'', ''--from'', ''a'']))
       = ''cancelled'' @ [CHR 0x0A]
   \<and> (0 :: 32 word) \<noteq> 1223"
proof -
  let ?del = "[''FileOps.exe'', ''delete'', ''--show-errors'', ''--from'', ''a'']"
  from main_accepted_report [OF accepted_delete_one,
      of "SHFileOperationW_returns 0 True" FormatMessageA_fails]
  have "fst (main (SHFileOperationW_returns 0 True) FormatMessageA_fails ?del) = 0"
    "console (snd (main (SHFileOperationW_returns 0 True) FormatMessageA_fails ?del))
       = ''cancelled'' @ [CHR 0x0A]"
    unfolding SHFileOperationW_returns_def fst_conv snd_conv printed_by_cases
    by auto
  with accepted_delete_one show ?thesis by simp
qed

subsection \<open>Result Reporter: the dialog\<close>








subsection \<open>Path List Encoder: the tab separator\<close>

lemma round_trip_bytes:
  assumes "\<forall>f\<in>set files. utf8_well_formed f \<and> CHR 0x09 \<notin> set f \<and> CHR 0x00 \<notin> set f"
  shows "map utf16_to_utf8 (split_on_null (combileFileNames files)) = files"
proof -
  from assms have "\<forall>f\<in>set files. CHR 0x09 \<notin> set f \<and> CHR 0x00 \<notin> set f"
    by blast
  then have "split_on_null (combileFileNames files) = map utf8_to_utf16 files"
    by (rule round_trip)
  moreover from assms have "map (utf16_to_utf8 \<circ> utf8_to_utf16) files = files"
    by (intro map_idI) (simp add: utf16_to_utf8_utf8_to_utf16)
  ultimately show ?thesis by simp
qed

lemma round_trip_ascii:
  assumes "\<forall>f\<in>set files. \<forall>c\<in>set f.
             (of_char c :: nat) < 0x80 \<and> c \<noteq> CHR 0x09 \<and> c \<noteq> CHR 0x00"
  shows "split_on_null (combileFileNames files) = map (map of_char) files"
proof -
  from assms have "\<forall>f\<in>set files. CHR 0x09 \<notin> set f \<and> CHR 0x00 \<notin> set f"
    by blast
  then have "split_on_null (combileFileNames files) = map utf8_to_utf16 files"
    by (rule round_trip)
  moreover from assms have "map utf8_to_utf16 files = map (map of_char) files"
    by (intro map_cong refl utf8_to_utf16_ascii) blast
  ultimately show ?thesis by simp
qed

text \<open>
  C10 (as amended). The encoder separates the paths by tab characters before it converts
  them. For every list of paths that are well-formed UTF-8 and hold neither a tab nor a
  null character, splitting the encoded buffer on its null terminators gives exactly
  the input list: the entries are the paths in wide characters and read back as the
  input bytes; for plain ASCII paths they hold the same characters one for one. A path
  with an embedded tab is split at the tab: the list of the one path \<open>a<tab>b\<close>
  decodes to the two entries \<open>a\<close> and \<open>b\<close>, not to the input list.
\<close>

theorem combileFileNames_tab_separator:
  "((\<forall>f\<in>set files. utf8_well_formed f \<and> CHR 0x09 \<notin> set f \<and> CHR 0x00 \<notin> set f)
      \<longrightarrow> split_on_null (combileFileNames files) = map utf8_to_utf16 files
          \<and> map utf16_to_utf8 (split_on_null (combileFileNames files)) = files)
   \<and> ((\<forall>f\<in>set files. \<forall>c\<in>set f.
          (of_char c :: nat) < 0x80 \<and> c \<noteq> CHR 0x09 \<and> c \<noteq> CHR 0x00)
      \<longrightarrow> split_on_null (combileFileNames files) = map (map of_char) files)
   \<and> split_on_null (combileFileNames [''a'' @ [CHR 0x09] @ ''b'']) = [[0x61], [0x62]]
   \<and> map utf16_to_utf8 (split_on_null (combileFileNames [''a'' @ [CHR 0x09] @ ''b'']))
       = [''a'', ''b'']
   \<and> map utf16_to_utf8 (split_on_null (combileFileNames [''a'' @ [CHR 0x09] @ ''b'']))
       \<noteq> [''a'' @ [CHR 0x09] @ ''b'']"
proof (intro conjI impI)
  assume w: "\<forall>f\<in>set files. utf8_well_formed f \<and> CHR 0x09 \<notin> set f \<and> CHR 0x00 \<notin> set f"
  then have "\<forall>f\<in>set files. CHR 0x09 \<notin> set f \<and> CHR 0x00 \<notin> set f"
    by blast
  then show "split_on_null (combileFileNames files) = map utf8_to_utf16 files"
    by (rule round_trip)
  from w show "map utf16_to_utf8 (split_on_null (combileFileNames files)) = files"
    by (rule round_trip_bytes)
next
  assume "\<forall>f\<in>set files. \<forall>c\<in>set f.
            (of_char c :: nat) < 0x80 \<and> c \<noteq> CHR 0x09 \<and> c \<noteq> CHR 0x00"
  then show "split_on_null (combileFileNames files) = map (map of_char) files"
    by (rule round_trip_ascii)
next
  show s: "split_on_null (combileFileNames [''a'' @ [CHR 0x09] @ ''b'']) = [[0x61], [0x62]]"
    unfolding tab_path_buffer by (simp add: split_on_null_def)
  show "map utf16_to_utf8 (split_on_null (combileFileNames [''a'' @ [CHR 0x09] @ ''b'']))
          = [''a'', ''b'']"
    unfolding s by (simp add: utf8_encode_def char_of_def bit_Suc_0_iff)
  show "map utf16_to_utf8 (split_on_null (combileFileNames [''a'' @ [CHR 0x09] @ ''b'']))
          \<noteq> [''a'' @ [CHR 0x09] @ ''b'']"
    unfolding s by simp
qed

theorem combileFileNames_tab_separator_witness:
  "split_on_null (combileFileNames [''x'', [CHR 0xC3, CHR 0xA9]]) = [[0x78], [0xE9]]
   \<and> map utf16_to_utf8 (split_on_null (combileFileNames [''x'', [CHR 0xC3, CHR 0xA9]]))
       = [''x'', [CHR 0xC3, CHR 0xA9]]
   \<and> split_on_null (combileFileNames [''x'', ''yz'']) = [[0x78], [0x79, 0x7A]]"
proof -
  have "\<forall>f\<in>set [''x'', [CHR 0xC3, CHR 0xA9]].
          utf8_well_formed f \<and> CHR 0x09 \<notin> set f \<and> CHR 0x00 \<notin> set f"
    by (simp add: utf8_sequence_def is_cont_def)
  with combileFileNames_tab_separator [of "[''x'', [CHR 0xC3, CHR 0xA9]]"]
  have a: "split_on_null (combileFileNames [''x'', [CHR 0xC3, CHR 0xA9]])
          = map utf8_to_utf16 [''x'', [CHR 0xC3, CHR 0xA9]]"
    and b: "map utf16_to_utf8 (split_on_null (combileFileNames [''x'', [CHR 0xC3, CHR 0xA9]]))
          = [''x'', [CHR 0xC3, CHR 0xA9]]"
    by blast+
  have "map utf8_to_utf16 [''x'', [CHR 0xC3, CHR 0xA9]] = [[0x78], [0xE9]]"
    by (simp add: utf8_sequence_def is_cont_def utf16_units_def)
  with a have a': "split_on_null (combileFileNames [''x'', [CHR 0xC3, CHR 0xA9]])
          = [[0x78], [0xE9]]"
    by simp
  have "\<forall>f\<in>set [''x'', ''yz'']. \<forall>c\<in>set f.
          (of_char c :: nat) < 0x80 \<and> c \<noteq> CHR 0x09 \<and> c \<noteq> CHR 0x00"
    by simp
  with combileFileNames_tab_separator [of "[''x'', ''yz'']"]
  have "split_on_null (combileFileNames [''x'', ''yz'']) = map (map of_char) [''x'', ''yz'']"
    by blast
  then have c: "split_on_null (combileFileNames [''x'', ''yz'']) = [[0x78], [0x79, 0x7A]]"
    by simp
  from a' b c show ?thesis by blast
qed

lemma ill_formed_buffer:
  "combileFileNames [[CHR 0xE9]] = [0xFFFD, 0, 0]"
  "combileFileNames [[CHR 0xE8]] = [0xFFFD, 0, 0]"
proof -
  have "stringToLpwstr (combinedStr [[CHR 0xE9]]) = [0xFFFD, 0x09, 0]"
    "stringToLpwstr (combinedStr [[CHR 0xE8]]) = [0xFFFD, 0x09, 0]"
    by (simp_all add: combinedStr_concat stringToLpwstr_def utf8_sequence_def is_cont_def)
  moreover have "wcslen [0xFFFD, 0x09, 0] = 2"
    by (simp add: wcslen_def)
  ultimately show "combileFileNames [[CHR 0xE9]] = [0xFFFD, 0, 0]"
    "combileFileNames [[CHR 0xE8]] = [0xFFFD, 0, 0]"
    by (simp_all add: combileFileNames_def Let_def replace_tabs_map)
qed

text \<open>
  The one-byte paths \<open>0xE9\<close> and \<open>0xE8\<close> hold neither tab nor null, and both decode to
  the single replacement character U+FFFD: the decode is not the input list.
\<close>

theorem combileFileNames_ill_formed_counterexample:
  "CHR 0x09 \<notin> set [CHR 0xE9] \<and> CHR 0x00 \<notin> set [CHR 0xE9]
   \<and> split_on_null (combileFileNames [[CHR 0xE9]]) = [[0xFFFD]]
   \<and> split_on_null (combileFileNames [[CHR 0xE8]]) = [[0xFFFD]]
   \<and> map utf16_to_utf8 (split_on_null (combileFileNames [[CHR 0xE9]]))
       = [[CHR 0xEF, CHR 0xBF, CHR 0xBD]]
   \<and> map utf16_to_utf8 (split_on_null (combileFileNames [[CHR 0xE9]])) \<noteq> [[CHR 0xE9]]"
  unfolding ill_formed_buffer
  by (simp add: split_on_null_def utf8_encode_def char_of_def bit_Suc_0_iff)

end
